theory Spec2Isabelle
  imports Complex_Main "HOL-Library.Sublist"
begin

section \<open>Python strings\<close>

text \<open>
  A Python \<open>str\<close> is modelled as a HOL \<open>string\<close>; a \<open>char\<close> stands for a code point
  below 256. Strings with code points from 256 on are outside the model.
\<close>

text \<open>The characters removed by \<open>str.strip()\<close> (those with \<open>str.isspace()\<close>).\<close>

definition is_space :: "char \<Rightarrow> bool" where
  "is_space c =
     (let n = (of_char c :: nat)
      in (9 \<le> n \<and> n \<le> 13) \<or> (28 \<le> n \<and> n \<le> 32) \<or> n = 133 \<or> n = 160)"

definition py_strip :: "string \<Rightarrow> string" where
  "py_strip s = rev (dropWhile is_space (rev (dropWhile is_space s)))"

text \<open>
  \<open>s.split(sep)\<close>: a scan from the left for non-overlapping occurrences of \<open>sep\<close>.
  Python raises ValueError for an empty separator; every call of the source passes a
  non-empty literal.
\<close>

function py_split :: "string \<Rightarrow> string \<Rightarrow> string list" where
  "py_split sep [] = [[]]"
| "py_split sep (c # cs) =
     (if sep \<noteq> [] \<and> prefix sep (c # cs)
      then [] # py_split sep (drop (length sep) (c # cs))
      else (case py_split sep cs of [] \<Rightarrow> [[c]] | w # ws \<Rightarrow> (c # w) # ws))"
  by pat_completeness auto
termination
  by (relation "measure (\<lambda>(sep, s). length s)") auto

text \<open>\<open>sep.join(xs)\<close>.\<close>

fun py_join :: "string \<Rightarrow> string list \<Rightarrow> string" where
  "py_join sep [] = []"
| "py_join sep [x] = x"
| "py_join sep (x # y # ys) = x @ sep @ py_join sep (y # ys)"

text \<open>\<open>s.replace(a, b)\<close> for one-character \<open>a\<close> and \<open>b\<close>.\<close>

definition py_replace :: "char \<Rightarrow> char \<Rightarrow> string \<Rightarrow> string" where
  "py_replace a b s = map (\<lambda>c. if c = a then b else c) s"

definition ljust :: "nat \<Rightarrow> char \<Rightarrow> string \<Rightarrow> string" where
  "ljust n c s = s @ replicate (n - length s) c"

definition rjust :: "nat \<Rightarrow> char \<Rightarrow> string \<Rightarrow> string" where
  "rjust n c s = replicate (n - length s) c @ s"

subsection \<open>Decimal numerals\<close>

definition digit_char :: "nat \<Rightarrow> char" where
  "digit_char d = char_of (48 + d)"

definition is_digit :: "char \<Rightarrow> bool" where
  "is_digit c = (let n = (of_char c :: nat) in 48 \<le> n \<and> n \<le> 57)"

definition digit_val :: "char \<Rightarrow> nat" where
  "digit_val c = of_char c - 48"

text \<open>\<open>str(n)\<close> for a natural number.\<close>

fun str_nat :: "nat \<Rightarrow> string" where
  "str_nat n = (if n < 10 then [digit_char n] else str_nat (n div 10) @ [digit_char (n mod 10)])"

declare str_nat.simps [simp del]

text \<open>\<open>"%0wd" % i\<close> and \<open>f"{i:0wd}"\<close>: zero padding to width \<open>w\<close>, the sign counted.\<close>

definition fmt_d :: "nat \<Rightarrow> int \<Rightarrow> string" where
  "fmt_d w i =
     (if i < 0 then CHR ''-'' # rjust (w - 1) CHR ''0'' (str_nat (nat (- i)))
      else rjust w CHR ''0'' (str_nat (nat i)))"

text \<open>
  \<open>int(s)\<close> in base 10: whitespace around, an optional sign, then digits, with single
  underscores allowed between digits. \<open>None\<close> is ValueError. The whitespace of \<open>int\<close>
  differs from that of \<open>strip\<close> (the code points 28 to 31 are not skipped). The
  interpreter's limit on the number of digits of a numeral (4300 by default, where the
  interpreter has one) is not modelled.
\<close>

definition is_int_space :: "char \<Rightarrow> bool" where
  "is_int_space c =
     (let n = (of_char c :: nat) in (9 \<le> n \<and> n \<le> 13) \<or> n = 32 \<or> n = 133 \<or> n = 160)"

fun digit_groups :: "string \<Rightarrow> bool" where
  "digit_groups [] = False"
| "digit_groups [c] = is_digit c"
| "digit_groups (c # d # r) =
     (is_digit c \<and> (if d = CHR ''_'' then digit_groups r else digit_groups (d # r)))"

definition digits_value :: "string \<Rightarrow> nat" where
  "digits_value s = foldl (\<lambda>a c. 10 * a + digit_val c) 0 (filter is_digit s)"

definition py_int :: "string \<Rightarrow> int option" where
  "py_int s =
     (let t = rev (dropWhile is_int_space (rev (dropWhile is_int_space s)))
      in case t of
           [] \<Rightarrow> None
         | c # r \<Rightarrow>
             if c = CHR ''-'' then (if digit_groups r then Some (- int (digits_value r)) else None)
             else if c = CHR ''+'' then (if digit_groups r then Some (int (digits_value r)) else None)
             else if digit_groups t then Some (int (digits_value t)) else None)"

text \<open>\<open>s.split()\<close> without a separator: the maximal runs of non-whitespace characters.\<close>

fun split_ws :: "string \<Rightarrow> string list" where
  "split_ws [] = [[]]"
| "split_ws (c # cs) =
     (if is_space c then [] # split_ws cs
      else (case split_ws cs of [] \<Rightarrow> [[c]] | w # ws \<Rightarrow> (c # w) # ws))"

definition py_words :: "string \<Rightarrow> string list" where
  "py_words s = filter (\<lambda>w. w \<noteq> []) (split_ws s)"

section \<open>utils.py\<close>

subsection \<open>validate_timestamp\<close>

text \<open>
  \<open>None\<close> is the source's \<open>return None\<close>, reached by the explicit returns and by the
  \<open>except ValueError\<close> around the three \<open>int\<close> calls. The indexings \<open>[0]\<close> and \<open>[1]\<close>
  never fail in the source: \<open>split\<close> returns at least one piece, and \<open>[1]\<close> is taken
  only under the test that the separator occurs.
\<close>

definition validate_timestamp :: "string \<Rightarrow> string option" where
  "validate_timestamp timestamp_str =
     (let parts = py_split '':'' timestamp_str in
      if length parts \<noteq> 3 then None
      else
        case py_int (parts ! 0) of None \<Rightarrow> None | Some hours \<Rightarrow>
        case py_int (parts ! 1) of None \<Rightarrow> None | Some minutes \<Rightarrow>
        let seconds_parts = py_split ''.'' (py_replace CHR '','' CHR ''.'' (parts ! 2)) in
        case py_int (seconds_parts ! 0) of None \<Rightarrow> None | Some seconds \<Rightarrow>
        if \<not> (0 \<le> hours \<and> 0 \<le> minutes \<and> minutes < 60 \<and> 0 \<le> seconds \<and> seconds < 60)
        then None
        else if CHR '','' \<in> set (parts ! 2) then
          let milliseconds = take 3 (ljust 3 CHR ''0'' (py_split '','' (parts ! 2) ! 1))
          in Some (fmt_d 2 hours @ '':'' @ fmt_d 2 minutes @ '':'' @ fmt_d 2 seconds
                   @ '','' @ milliseconds)
        else
          let milliseconds =
                (if CHR ''.'' \<in> set (parts ! 2)
                 then take 3 (ljust 3 CHR ''0'' (py_split ''.'' (parts ! 2) ! 1))
                 else ''000'')
          in Some (fmt_d 2 hours @ '':'' @ fmt_d 2 minutes @ '':'' @ fmt_d 2 seconds
                   @ '','' @ milliseconds))"

text \<open>
  \<open>hms_rejected\<close> is the test the code makes. A timestamp fails it when it does not have
  exactly two colons (three colon-separated parts), when one of the hours, the minutes or
  the seconds (the text of the third part before its first comma or dot) is not an integer
  numeral, when the hours are negative, or when the minutes or the seconds are outside
  \<open>[0, 60)\<close>.
\<close>

definition seconds_text :: "string \<Rightarrow> string" where
  "seconds_text ss = takeWhile (\<lambda>c. c \<noteq> CHR '','' \<and> c \<noteq> CHR ''.'') ss"

definition hms_rejected :: "string \<Rightarrow> bool" where
  "hms_rejected s =
     (count_list s CHR '':'' \<noteq> 2 \<or>
      (let parts = py_split '':'' s in
       case (py_int (parts ! 0), py_int (parts ! 1), py_int (seconds_text (parts ! 2))) of
         (Some hours, Some minutes, Some seconds) \<Rightarrow>
           hours < 0 \<or> minutes < 0 \<or> 60 \<le> minutes \<or> seconds < 0 \<or> 60 \<le> seconds
       | _ \<Rightarrow> True))"

text \<open>
  The specification's reading of the function: a timestamp is rejected when it fails the
  test above, or when its milliseconds do not parse. The milliseconds are the text of the
  third part after its first comma or dot, when it has one; they are a numeric part as the
  others are, read as an integer numeral. \<open>srt_timestamp\<close> is the form \<open>HH:MM:SS,mmm\<close>.
\<close>

definition fraction_text :: "string \<Rightarrow> string option" where
  "fraction_text ss =
     (if CHR '','' \<in> set ss \<or> CHR ''.'' \<in> set ss
      then Some (drop (Suc (length (seconds_text ss))) ss)
      else None)"

definition timestamp_rejected :: "string \<Rightarrow> bool" where
  "timestamp_rejected s =
     (hms_rejected s \<or>
      (count_list s CHR '':'' = 2 \<and>
       (case fraction_text (py_split '':'' s ! 2) of
          None \<Rightarrow> False
        | Some milliseconds \<Rightarrow> py_int milliseconds = None)))"

definition srt_timestamp :: "int \<Rightarrow> int \<Rightarrow> int \<Rightarrow> int \<Rightarrow> string" where
  "srt_timestamp h m sec ms =
     fmt_d 2 h @ '':'' @ fmt_d 2 m @ '':'' @ fmt_d 2 sec @ '','' @ fmt_d 3 ms"

text \<open>The three characters the function puts after the comma, from the third part.\<close>

definition millis_text :: "string \<Rightarrow> string" where
  "millis_text ss =
     (if CHR '','' \<in> set ss then take 3 (ljust 3 CHR ''0'' (py_split '','' ss ! 1))
      else if CHR ''.'' \<in> set ss then take 3 (ljust 3 CHR ''0'' (py_split ''.'' ss ! 1))
      else ''000'')"

subsection \<open>Segments and the SRT serialization (components.py)\<close>

text \<open>
  A subtitle segment is the dictionary \<open>{'start', 'end', 'text'}\<close>. The text is a \<open>str\<close> in
  the editor; after the translation phase of the worker it is whatever the endpoint
  returned, so the record is polymorphic in the text.
\<close>

record 'a segment =
  seg_start :: string
  seg_end :: string
  seg_text :: 'a

text \<open>
  \<open>SubtitleEditor.get_srt_content\<close>: the editor's widgets hold the segments, and
  \<open>get_segments\<close> reads them back unchanged, so the function is modelled on the segment list.
  \<open>srt_block\<close> is the f-string of the loop body.
\<close>

definition srt_block :: "nat \<times> string segment \<Rightarrow> string" where
  "srt_block = (\<lambda>(idx, segment).
     str_nat idx @ ''\<newline>'' @ seg_start segment @ '' --> '' @ seg_end segment @ ''\<newline>''
     @ seg_text segment @ ''\<newline>\<newline>'')"

definition get_srt_content :: "string segment list \<Rightarrow> string" where
  "get_srt_content segments =
     foldl (\<lambda>srt_content entry. srt_content @ srt_block entry) [] (enumerate 1 segments)"

subsection \<open>save_srt_to_vtt\<close>

text \<open>\<open>vtt_block\<close> is what one iteration of the loop appends to \<open>vtt_content\<close>.\<close>

definition vtt_block :: "string \<Rightarrow> string" where
  "vtt_block block =
     (if py_strip block = [] then []
      else
        let lines = py_split ''\<newline>'' block in
        if 3 \<le> length lines then
          let timestamp = py_replace CHR '','' CHR ''.'' (lines ! 1);
              text = py_join ''\<newline>'' (drop 2 lines)
          in timestamp @ ''\<newline>'' @ text @ ''\<newline>\<newline>''
        else [])"

definition save_srt_to_vtt :: "string \<Rightarrow> string" where
  "save_srt_to_vtt srt_content =
     foldl (\<lambda>vtt_content block. vtt_content @ vtt_block block) ''WEBVTT\<newline>\<newline>''
       (py_split ''\<newline>\<newline>'' srt_content)"

text \<open>
  The VTT document the specification describes: the header once, then one cue per segment,
  in order, with the timing line's commas turned into dots and the text as it is.
\<close>

definition vtt_cue :: "string segment \<Rightarrow> string" where
  "vtt_cue segment =
     py_replace CHR '','' CHR ''.'' (seg_start segment @ '' --> '' @ seg_end segment)
     @ ''\<newline>'' @ seg_text segment @ ''\<newline>\<newline>''"

definition vtt_document :: "string segment list \<Rightarrow> string" where
  "vtt_document segments = ''WEBVTT\<newline>\<newline>'' @ concat (map vtt_cue segments)"

text \<open>
  The segments on which the SRT text can be read back block by block: timestamps without a
  line break, and a text that is not empty, neither starts nor ends with a line break and
  has no blank line.
\<close>

fun has_blank_line :: "string \<Rightarrow> bool" where
  "has_blank_line (a # b # r) = ((a = CHR 0x0A \<and> b = CHR 0x0A) \<or> has_blank_line (b # r))"
| "has_blank_line _ = False"

definition text_ok :: "string \<Rightarrow> bool" where
  "text_ok t = (t \<noteq> [] \<and> hd t \<noteq> CHR 0x0A \<and> last t \<noteq> CHR 0x0A \<and> \<not> has_blank_line t)"

definition srt_safe :: "string segment \<Rightarrow> bool" where
  "srt_safe segment =
     (CHR 0x0A \<notin> set (seg_start segment) \<and> CHR 0x0A \<notin> set (seg_end segment) \<and>
      text_ok (seg_text segment))"

definition timing_line :: "string segment \<Rightarrow> string" where
  "timing_line segment = seg_start segment @ '' --> '' @ seg_end segment"

definition srt_entry :: "nat \<Rightarrow> string segment \<Rightarrow> string" where
  "srt_entry idx segment =
     str_nat idx @ CHR 0x0A # (timing_line segment @ CHR 0x0A # seg_text segment)"

subsection \<open>calculate_reading_speed\<close>

text \<open>
  The returned dictionary is an association list in insertion order; its values are
  numbers, the integers \<open>0\<close> and the counts among them, taken in \<open>rat\<close>. Python's \<open>float()\<close>
  is a parameter (\<open>None\<close> where it raises), and float arithmetic is taken exact; nothing
  proved below depends on a float value. \<open>parse_seconds\<close> is \<open>None\<close> where the source's
  \<open>try\<close> block raises (a missing part, a failed \<open>int\<close> or \<open>float\<close>) and the bare \<open>except\<close>
  skips the segment.
\<close>

definition parse_seconds :: "(string \<Rightarrow> rat option) \<Rightarrow> string \<Rightarrow> rat option" where
  "parse_seconds py_float ts =
     (let parts = py_split '':'' ts in
      if length parts < 3 then None
      else
        case py_int (parts ! 0) of None \<Rightarrow> None | Some h \<Rightarrow>
        case py_int (parts ! 1) of None \<Rightarrow> None | Some m \<Rightarrow>
        case py_float (py_replace CHR '','' CHR ''.'' (parts ! 2)) of None \<Rightarrow> None | Some s \<Rightarrow>
        Some (of_int h * 3600 + of_int m * 60 + s))"

definition segment_duration :: "(string \<Rightarrow> rat option) \<Rightarrow> string segment \<Rightarrow> rat option" where
  "segment_duration py_float segment =
     (case parse_seconds py_float (seg_start segment) of None \<Rightarrow> None | Some start_seconds \<Rightarrow>
      case parse_seconds py_float (seg_end segment) of None \<Rightarrow> None | Some end_seconds \<Rightarrow>
      Some (end_seconds - start_seconds))"

definition calculate_reading_speed ::
  "(string \<Rightarrow> rat option) \<Rightarrow> string segment list \<Rightarrow> rat option \<Rightarrow> (string \<times> rat) list" where
  "calculate_reading_speed py_float subtitle_segments total_duration =
     (if subtitle_segments = [] then
        [(''avg_speed'', 0), (''total_chars'', 0), (''total_words'', 0), (''total_duration'', 0)]
      else
        let (total_chars, total_words, segment_durations) =
              foldl (\<lambda>(total_chars, total_words, segment_durations) segment.
                       (total_chars + length (seg_text segment),
                        total_words + length (py_words (seg_text segment)),
                        case segment_duration py_float segment of
                          None \<Rightarrow> segment_durations
                        | Some duration \<Rightarrow> segment_durations @ [duration]))
                (0, 0, []) subtitle_segments;
            total_speaking_duration = sum_list segment_durations;
            avg_speed_cps = (if 0 < total_speaking_duration
                             then of_nat total_chars / total_speaking_duration else 0);
            avg_speed_wpm = (if 0 < total_speaking_duration
                             then of_nat total_words / total_speaking_duration * 60 else 0)
        in [(''avg_speed_cps'', avg_speed_cps), (''avg_speed_wpm'', avg_speed_wpm),
            (''total_chars'', of_nat total_chars), (''total_words'', of_nat total_words),
            (''total_speaking_duration'', total_speaking_duration),
            (''total_duration'',
               case total_duration of
                 None \<Rightarrow> total_speaking_duration
               | Some d \<Rightarrow> if d \<noteq> 0 then d else total_speaking_duration)])"

section \<open>transcription.py\<close>

subsection \<open>TranslationService\<close>

text \<open>
  The values \<open>response.json()\<close> can return. A dictionary is an association list with
  distinct keys; a number is taken in \<open>rat\<close>.
\<close>

datatype json = JNull | JBool bool | JNum rat | JStr string | JArr "json list"
  | JObj "(string \<times> json) list"

text \<open>
  The exceptions of the translation path, by the class that decides which handler catches
  them: \<open>requests.RequestException\<close> and its subclasses, \<open>TypeError\<close>, \<open>KeyError\<close>, any other
  subclass of \<open>Exception\<close>.
\<close>

datatype py_exn = RequestException | TypeError | KeyError | OtherException

record payload =
  payload_q :: string
  payload_source :: string
  payload_target :: string
  payload_format :: string

text \<open>
  The network is a parameter: what \<open>requests.post(url, json=payload, timeout=t)\<close> does,
  either an exception or a response with its status code and with what its \<open>json()\<close>
  method does (the exception a body that is not JSON raises is left to the parameter: it
  is a \<open>RequestException\<close> in current versions of the library).
\<close>

datatype json_result = JsonRaises py_exn | JsonValue json

datatype reply = Raises py_exn | Response int json_result

type_synonym network = "string \<Rightarrow> payload \<Rightarrow> nat \<Rightarrow> reply"

definition SERVERS :: "string list" where
  "SERVERS = [''https://translate.argosopentech.com'', ''https://libretranslate.de'',
              ''https://translate.terraprint.co'', ''https://lt.vern.cc'']"

definition TIMEOUT :: nat where
  "TIMEOUT = 10"

text \<open>\<open>"translatedText" in result\<close> and \<open>result["translatedText"]\<close>, by the type of \<open>result\<close>.\<close>

fun has_translated :: "json \<Rightarrow> py_exn + bool" where
  "has_translated (JObj kvs) = Inr (map_of kvs ''translatedText'' \<noteq> None)"
| "has_translated (JArr xs) = Inr (JStr ''translatedText'' \<in> set xs)"
| "has_translated (JStr s) = Inr (sublist ''translatedText'' s)"
| "has_translated _ = Inl TypeError"

fun get_translated :: "json \<Rightarrow> py_exn + json" where
  "get_translated (JObj kvs) =
     (case map_of kvs ''translatedText'' of None \<Rightarrow> Inl KeyError | Some v \<Rightarrow> Inr v)"
| "get_translated _ = Inl TypeError"

text \<open>
  The loop over \<open>SERVERS\<close>. The handler \<open>except requests.RequestException: continue\<close> catches
  that class only; any other exception leaves the function (\<open>Inl\<close>).
\<close>

fun try_servers :: "network \<Rightarrow> payload \<Rightarrow> string \<Rightarrow> string list \<Rightarrow> py_exn + json" where
  "try_servers net payload text [] = Inr (JStr text)"
| "try_servers net payload text (server # rest) =
     (case net (server @ ''/translate'') payload TIMEOUT of
        Raises e \<Rightarrow>
          if e = RequestException then try_servers net payload text rest else Inl e
      | Response status_code body \<Rightarrow>
          if status_code = 200 then
            (case body of
               JsonRaises e \<Rightarrow>
                 if e = RequestException then try_servers net payload text rest else Inl e
             | JsonValue result \<Rightarrow>
                 (case has_translated result of
                    Inl e \<Rightarrow> Inl e
                  | Inr True \<Rightarrow> get_translated result
                  | Inr False \<Rightarrow> try_servers net payload text rest))
          else try_servers net payload text rest)"

definition translate_text :: "network \<Rightarrow> string \<Rightarrow> string \<Rightarrow> py_exn + json" where
  "translate_text net text target_language =
     (if py_strip text = [] then Inr (JStr text)
      else
        let payload = \<lparr>payload_q = text, payload_source = ''auto'',
                        payload_target = target_language, payload_format = ''text''\<rparr>
        in try_servers net payload text SERVERS)"

text \<open>
  \<open>translate_batch\<close>. Each submitted task has its own network behaviour (\<open>nets index\<close>), and
  the order in which the futures complete is the parameter \<open>as_completed\<close>, applied to the
  submitted tasks. \<open>store_result\<close> is the body of the loop over the completed futures: the
  result is stored under \<open>try\<close>, and \<open>except Exception: pass\<close> keeps the original text.
\<close>

definition texts_to_translate :: "string list \<Rightarrow> (nat \<times> string) list" where
  "texts_to_translate texts = filter (\<lambda>(i, text). py_strip text \<noteq> []) (enumerate 0 texts)"

definition store_result ::
  "(nat \<Rightarrow> network) \<Rightarrow> string \<Rightarrow> json list \<Rightarrow> nat \<times> string \<Rightarrow> json list" where
  "store_result nets target_language results = (\<lambda>(index, text).
     case translate_text (nets index) text target_language of
       Inr translated_text \<Rightarrow> results[index := translated_text]
     | Inl e \<Rightarrow> results)"

definition translate_batch ::
  "(nat \<Rightarrow> network) \<Rightarrow> ((nat \<times> string) list \<Rightarrow> (nat \<times> string) list) \<Rightarrow> string list \<Rightarrow> string
   \<Rightarrow> json list" where
  "translate_batch nets as_completed texts target_language =
     (if texts_to_translate texts = [] then map JStr texts
      else foldl (store_result nets target_language) (map JStr texts)
             (as_completed (texts_to_translate texts)))"

text \<open>
  An endpoint fails in the way \<open>translate_text\<close> absorbs: the request raises a
  \<open>RequestException\<close> (a timeout, a refused connection), the status is not 200, the body is
  not JSON (and the library reports it with a \<open>RequestException\<close>), or the body has no
  \<open>translatedText\<close>. \<open>flaky_nets\<close> is a network for the examples: the first task of a
  batch gets the JSON body \<open>null\<close> with status 200 from every server, the others get no
  connection.
\<close>

definition endpoint_fails :: "reply \<Rightarrow> bool" where
  "endpoint_fails r =
     (case r of
        Raises e \<Rightarrow> e = RequestException
      | Response status_code body \<Rightarrow>
          status_code \<noteq> 200 \<or>
          (case body of
             JsonRaises e \<Rightarrow> e = RequestException
           | JsonValue result \<Rightarrow> has_translated result = Inr False))"

definition flaky_nets :: "nat \<Rightarrow> network" where
  "flaky_nets i url payload timeout =
     (if i = 0 then Response 200 (JsonValue JNull) else Raises RequestException)"

subsection \<open>Formatting a time: str(timedelta(seconds=x)).rjust(12, "0")[:-3].replace(".", ",")\<close>

definition str_int :: "int \<Rightarrow> string" where
  "str_int i = (if i < 0 then CHR ''-'' # str_nat (nat (- i)) else str_nat (nat i))"

definition round_half_even :: "rat \<Rightarrow> int" where
  "round_half_even x =
     (let f = \<lfloor>x\<rfloor>; d = x - of_int f
      in if d < 1 / 2 then f else if 1 / 2 < d then f + 1 else if even f then f else f + 1)"

text \<open>
  \<open>timedelta(seconds=x)\<close> for a finite float \<open>x\<close>, given as the rational it denotes: the
  value is rounded to microseconds, half to even, and normalised to days, seconds in
  \<open>[0, 86400)\<close> and microseconds in \<open>[0, 10^6)\<close>; more than 999999999 days in magnitude is
  OverflowError (\<open>Inl\<close>, with the message). The rounding is exact here and in floats in
  the library; the two agree on the values evaluated below (1.5 and 3.0).
\<close>

record timedelta =
  td_days :: int
  td_seconds :: int
  td_microseconds :: int

definition timedelta_of_seconds :: "rat \<Rightarrow> string + timedelta" where
  "timedelta_of_seconds seconds =
     (let us = round_half_even (seconds * 1000000);
          d = us div 86400000000;
          s = (us mod 86400000000) div 1000000;
          u = us mod 1000000
      in if 999999999 < \<bar>d\<bar>
         then Inl (''days='' @ str_int d @ ''; must have magnitude <= 999999999'')
         else Inr \<lparr>td_days = d, td_seconds = s, td_microseconds = u\<rparr>)"

text \<open>\<open>timedelta.__str__\<close>: \<open>[D day[s], ]H:MM:SS[.ffffff]\<close>.\<close>

definition str_timedelta :: "timedelta \<Rightarrow> string" where
  "str_timedelta td =
     (let mm = td_seconds td div 60; ss = td_seconds td mod 60;
          hh = mm div 60; mm = mm mod 60;
          s = str_int hh @ '':'' @ fmt_d 2 mm @ '':'' @ fmt_d 2 ss;
          s = (if td_days td \<noteq> 0
               then str_int (td_days td) @ '' day'' @ (if \<bar>td_days td\<bar> \<noteq> 1 then ''s'' else [])
                    @ '', '' @ s
               else s)
      in if td_microseconds td \<noteq> 0 then s @ ''.'' @ fmt_d 6 (td_microseconds td) else s)"

text \<open>\<open>.rjust(12, "0")[:-3].replace(".", ",")\<close>.\<close>

definition clip_time :: "string \<Rightarrow> string" where
  "clip_time s0 =
     (let s = rjust 12 CHR ''0'' s0 in py_replace CHR ''.'' CHR '','' (take (length s - 3) s))"

definition srt_time :: "rat \<Rightarrow> string + string" where
  "srt_time seconds =
     (case timedelta_of_seconds seconds of
        Inl e \<Rightarrow> Inl e
      | Inr td \<Rightarrow> Inr (clip_time (str_timedelta td)))"

subsection \<open>WhisperTranscriptionThread: state, signals, cancellation\<close>

text \<open>
  The signals the thread emits are collected in a trace. The worker's state is the flag
  \<open>self.cancelled\<close> and the trace; the ghost field \<open>flag_reads\<close> counts the reads of the flag.

  \<open>cancel()\<close> runs on the GUI thread. It acts on the worker only through the flag, which the
  worker reads at its checks \<open>if self.cancelled\<close>; so a schedule is the number of the first
  read that sees the flag set (\<open>cancel_at = Some k\<close>: \<open>cancel()\<close> has run when the worker
  makes its read number \<open>k\<close>, counted from 0, and not before read \<open>k - 1\<close>), or \<open>None\<close> when no
  read of the run sees it. The flag is never reset.
\<close>

datatype event = Progress nat string | TranscriptionComplete "json segment list"
  | ErrorOccurred string

record worker =
  cancelled :: bool
  flag_reads :: nat
  events :: "event list"

definition idle :: worker where
  "idle = \<lparr>cancelled = False, flag_reads = 0, events = []\<rparr>"

definition emit :: "event \<Rightarrow> worker \<Rightarrow> worker" where
  "emit e w = w\<lparr>events := events w @ [e]\<rparr>"

definition cancel :: "worker \<Rightarrow> worker" where
  "cancel w = emit (Progress 0 ''Cancelling operation...'') (w\<lparr>cancelled := True\<rparr>)"

definition read_cancelled :: "nat option \<Rightarrow> worker \<Rightarrow> bool \<times> worker" where
  "read_cancelled cancel_at w =
     (let w' = (if cancel_at = Some (flag_reads w) then cancel w else w)
      in (cancelled w', w'\<lparr>flag_reads := Suc (flag_reads w')\<rparr>))"

subsection \<open>_select_model_size\<close>

text \<open>
  The parameter is \<open>total_memory\<close> in bytes when CUDA is available. \<open>total_memory / 1024**3\<close>
  is exact in floats for the memory sizes that exist, so the thresholds and the \<open>.1f\<close>
  rendering are taken on the rational.
\<close>

definition fmt_1f :: "rat \<Rightarrow> string" where
  "fmt_1f x = (let t = round_half_even (x * 10) in str_int (t div 10) @ ''.'' @ str_int (t mod 10))"

definition select_model_size :: "nat option \<Rightarrow> worker \<Rightarrow> string \<times> worker" where
  "select_model_size gpu w =
     (case gpu of
        Some total_memory \<Rightarrow>
          let gpu_memory = (of_nat total_memory :: rat) / 1024 ^ 3;
              model_size = (if 10 < gpu_memory then ''large''
                            else if 5 < gpu_memory then ''medium''
                            else if 2 < gpu_memory then ''small''
                            else ''base'')
          in (model_size,
              emit (Progress 15 (''Using '' @ model_size @ '' model with GPU acceleration (''
                                 @ fmt_1f gpu_memory @ '' GB VRAM)'')) w)
      | None \<Rightarrow> (''base'', emit (Progress 15 ''Using base model (CPU mode - slower)'') w))"

subsection \<open>_process_segments\<close>

text \<open>
  A raw segment of the model: \<open>start\<close> and \<open>end\<close> are finite floats, given as rationals. The
  result is \<open>Inl\<close> with the exception's message when \<open>timedelta\<close> raises (the caller \<open>run\<close>
  catches it). The percentage \<open>65 + int((idx + 1) / total_segments * 30)\<close> is computed
  exactly; in floats it can differ by one, and stays at most 95 either way.
\<close>

record raw_segment =
  raw_start :: rat
  raw_end :: rat
  raw_text :: string

fun process_loop ::
  "nat option \<Rightarrow> bool \<Rightarrow> nat \<Rightarrow> nat \<Rightarrow> raw_segment list \<Rightarrow> string segment list \<Rightarrow> worker
   \<Rightarrow> (string + string segment list) \<times> worker" where
  "process_loop cancel_at translate total_segments idx [] segments w = (Inr segments, w)"
| "process_loop cancel_at translate total_segments idx (segment # rest) segments w =
     (case read_cancelled cancel_at w of
        (True, w1) \<Rightarrow> (Inr [], w1)
      | (False, w1) \<Rightarrow>
          (case srt_time (raw_start segment) of
             Inl e \<Rightarrow> (Inl e, w1)
           | Inr start_time \<Rightarrow>
               (case srt_time (raw_end segment) of
                  Inl e \<Rightarrow> (Inl e, w1)
                | Inr end_time \<Rightarrow>
                    let text = py_strip (raw_text segment);
                        segments' = segments @
                          [\<lparr>seg_start = start_time, seg_end = end_time, seg_text = text\<rparr>];
                        w2 = (if \<not> translate
                              then emit (Progress (65 + ((idx + 1) * 30) div total_segments)
                                     (''Processing segment '' @ str_nat (idx + 1) @ ''/''
                                      @ str_nat total_segments)) w1
                              else w1)
                    in process_loop cancel_at translate total_segments (idx + 1) rest segments' w2)))"

definition process_segments ::
  "nat option \<Rightarrow> bool \<Rightarrow> raw_segment list \<Rightarrow> worker
   \<Rightarrow> (string + string segment list) \<times> worker" where
  "process_segments cancel_at translate raw_segments w =
     process_loop cancel_at translate (length raw_segments) 0 raw_segments [] w"

subsection \<open>_translate_segments\<close>

text \<open>
  The environment of a run: the GPU, what \<open>whisper.load_model\<close> does (\<open>Some\<close> the message of
  the exception it raises), what \<open>model.transcribe\<close> does (\<open>Inl\<close> the message of the exception
  it raises), the network of each translated text (by its index in the segment list) and
  the completion order of the futures of a batch.
\<close>

record whisper_result =
  result_language :: "string option"
  result_segments :: "raw_segment list"

record environment =
  env_gpu_total_memory :: "nat option"
  env_load_model :: "string \<Rightarrow> string option"
  env_transcribe :: "string \<Rightarrow> string \<Rightarrow> string option \<Rightarrow> string + whisper_result"
  env_nets :: "nat \<Rightarrow> network"
  env_as_completed :: "(nat \<times> string) list \<Rightarrow> (nat \<times> string) list"

definition untranslated :: "string segment \<Rightarrow> json segment" where
  "untranslated segment =
     \<lparr>seg_start = seg_start segment, seg_end = seg_end segment,
      seg_text = JStr (seg_text segment)\<rparr>"

definition batch_size_of :: "nat \<Rightarrow> nat" where
  "batch_size_of total_texts = max 5 (total_texts div 10)"

text \<open>
  \<open>store_batch\<close> is the body of the inner loop, \<open>translated_segments[idx]["text"] =
  translated_batch[j]\<close>. The list \<open>segments.copy()\<close> shares its dictionaries with the input
  list, which the assignment changes too; the model returns the new list and keeps the
  input, the value the caller passed.

  \<open>translate_loop\<close> is the loop \<open>for i in range(0, total_texts, batch_size)\<close> with what follows
  it; a cancelled check returns \<open>[]\<close> at once. The percentage \<open>70 + int(i / total_texts * 25)\<close>
  is computed exactly.
\<close>

definition store_batch ::
  "json list \<Rightarrow> json segment list \<Rightarrow> nat \<times> nat \<Rightarrow> json segment list" where
  "store_batch translated_batch translated_segments = (\<lambda>(j, idx).
     translated_segments[idx := (translated_segments ! idx)\<lparr>seg_text := translated_batch ! j\<rparr>])"

function translate_loop ::
  "environment \<Rightarrow> nat option \<Rightarrow> string \<Rightarrow> string list \<Rightarrow> nat \<Rightarrow> json segment list \<Rightarrow> worker
   \<Rightarrow> json segment list \<times> worker" where
  "translate_loop env cancel_at target texts i translated_segments w =
     (let total_texts = length texts; batch_size = batch_size_of total_texts in
      if total_texts \<le> i
      then (translated_segments, emit (Progress 95 ''Translation completed.'') w)
      else
        case read_cancelled cancel_at w of
          (True, w1) \<Rightarrow> ([], w1)
        | (False, w1) \<Rightarrow>
            let batch = take batch_size (drop i texts);
                batch_indices = [i ..< min (i + batch_size) total_texts];
                progress = 70 + (i * 25) div total_texts;
                w2 = emit (Progress progress
                       (''Translating segments '' @ str_nat (i + 1) @ ''-''
                        @ str_nat (i + length batch) @ ''/'' @ str_nat total_texts)) w1;
                translated_batch =
                  translate_batch (\<lambda>j. env_nets env (i + j)) (env_as_completed env) batch target
            in translate_loop env cancel_at target texts (i + batch_size)
                 (foldl (store_batch translated_batch) translated_segments
                    (enumerate 0 batch_indices)) w2)"
  by pat_completeness auto
termination
  by (relation "measure (\<lambda>(env, cancel_at, target, texts, i, segs, w). length texts - i)")
     (auto simp: batch_size_of_def)

declare translate_loop.simps [simp del]

definition translate_segments ::
  "environment \<Rightarrow> nat option \<Rightarrow> string \<Rightarrow> string segment list \<Rightarrow> worker
   \<Rightarrow> json segment list \<times> worker" where
  "translate_segments env cancel_at target segments w =
     (let w1 = emit (Progress 70 ''Starting translation...'') w;
          texts = map seg_text segments
      in translate_loop env cancel_at target texts 0 (map untranslated segments) w1)"

subsection \<open>run\<close>

record job =
  job_audio_path :: string
  job_source_language :: string
  job_translate :: bool
  job_target_language :: "string option"

definition report_error :: "string \<Rightarrow> worker \<Rightarrow> worker" where
  "report_error e w = emit (ErrorOccurred (''Transcription error: '' @ e)) w"

definition finish :: "json segment list \<Rightarrow> worker \<Rightarrow> worker" where
  "finish segments w =
     emit (TranscriptionComplete segments) (emit (Progress 100 ''Complete!'') w)"

text \<open>
  \<open>run\<close>, from the worker's state at its start to its state at its end. Each \<open>return\<close> after a
  cancelled check ends the run with the state as it is; \<open>report_error\<close> is the handler
  \<open>except Exception\<close>.
\<close>

definition run :: "environment \<Rightarrow> nat option \<Rightarrow> job \<Rightarrow> worker \<Rightarrow> worker" where
  "run env cancel_at j w0 =
     (let w = emit (Progress 5 ''Initializing transcription model...'') w0;
          (model_size, w) = select_model_size (env_gpu_total_memory env) w;
          w = emit (Progress 10 (''Loading '' @ model_size @ '' model...'')) w
      in case env_load_model env model_size of
           Some e \<Rightarrow> report_error e w
         | None \<Rightarrow>
      (case read_cancelled cancel_at w of
         (True, w) \<Rightarrow> w
       | (False, w) \<Rightarrow>
      let w = emit (Progress 30 ''Model loaded. Starting transcription...'') w;
          language = (if job_source_language j \<noteq> ''auto''
                      then Some (job_source_language j) else None);
          w = (if job_source_language j \<noteq> ''auto''
               then emit (Progress 35
                      (''Transcribing with language: '' @ job_source_language j)) w
               else emit (Progress 35 ''Detecting language automatically...'') w)
      in case env_transcribe env model_size (job_audio_path j) language of
           Inl e \<Rightarrow> report_error e w
         | Inr result \<Rightarrow>
      (case read_cancelled cancel_at w of
         (True, w) \<Rightarrow> w
       | (False, w) \<Rightarrow>
      let w = emit (Progress 60 ''Transcription complete. Processing results...'') w;
          detected_language =
            (case result_language result of Some l \<Rightarrow> l | None \<Rightarrow> ''unknown'');
          w = emit (Progress 65 (''Detected language: '' @ detected_language)) w
      in case process_segments cancel_at (job_translate j) (result_segments result) w of
           (Inl e, w) \<Rightarrow> report_error e w
         | (Inr segments, w) \<Rightarrow>
      (case read_cancelled cancel_at w of
         (True, w) \<Rightarrow> w
       | (False, w) \<Rightarrow>
      if job_translate j \<and> job_target_language j \<noteq> None \<and> job_target_language j \<noteq> Some []
      then
        (case translate_segments env cancel_at (the (job_target_language j)) segments w of
           (segments, w) \<Rightarrow>
        (case read_cancelled cancel_at w of
           (True, w) \<Rightarrow> w
         | (False, w) \<Rightarrow> finish segments w))
      else finish (map untranslated segments) w))))"

subsection \<open>Properties of a trace, and an environment for the examples\<close>

text \<open>
  A completion event is the signal \<open>transcription_complete\<close> or a progress of 100. A worker
  state is orderly when its trace has no completion event and, if the flag is set, has
  the message of \<open>cancel()\<close>.
\<close>

definition is_completion :: "event \<Rightarrow> bool" where
  "is_completion e =
     (case e of Progress p m \<Rightarrow> p = 100 | TranscriptionComplete s \<Rightarrow> True
      | ErrorOccurred m \<Rightarrow> False)"

definition orderly :: "worker \<Rightarrow> bool" where
  "orderly w =
     ((\<forall>e \<in> set (events w). \<not> is_completion e) \<and>
      (cancelled w \<longrightarrow> Progress 0 ''Cancelling operation...'' \<in> set (events w)))"

text \<open>
  \<open>quiet_env\<close>: no GPU, the model loads, the transcription finds English and no segment,
  the network is \<open>flaky_nets\<close> and the futures complete in reverse order. \<open>plain_job\<close>
  transcribes without translation.
\<close>

definition quiet_env :: environment where
  "quiet_env =
     \<lparr>env_gpu_total_memory = None,
      env_load_model = (\<lambda>model_size. None),
      env_transcribe = (\<lambda>model_size audio_path language.
         Inr \<lparr>result_language = Some ''en'', result_segments = []\<rparr>),
      env_nets = flaky_nets,
      env_as_completed = rev\<rparr>"

definition plain_job :: job where
  "plain_job = \<lparr>job_audio_path = ''talk.wav'', job_source_language = ''auto'',
                 job_translate = False, job_target_language = None\<rparr>"

section \<open>Facts about the string primitives\<close>

lemma py_split_not_Nil [simp]: "py_split sep s \<noteq> []"
  by (induction sep s rule: py_split.induct) (auto split: list.splits)

lemma py_split_char_absent: "c \<notin> set a \<Longrightarrow> py_split [c] a = [a]"
  by (induction a) auto

lemma py_split_char_append:
  "c \<notin> set a \<Longrightarrow> py_split [c] (a @ c # b) = a # py_split [c] b"
  by (induction a) auto

lemma py_split_char_piece: "p \<in> set (py_split [c] s) \<Longrightarrow> c \<notin> set p"
proof (induction s arbitrary: p)
  case Nil
  then show ?case by simp
next
  case (Cons x xs)
  show ?case
  proof (cases "x = c")
    case True
    with Cons show ?thesis by auto
  next
    case False
    obtain w ws where ws: "py_split [c] xs = w # ws"
      by (cases "py_split [c] xs") auto
    with Cons False show ?thesis by auto
  qed
qed

lemma py_split_char_subset: "p \<in> set (py_split [c] s) \<Longrightarrow> set p \<subseteq> set s"
proof (induction s arbitrary: p)
  case Nil
  then show ?case by simp
next
  case (Cons x xs)
  show ?case
  proof (cases "x = c")
    case True
    with Cons show ?thesis by auto
  next
    case False
    obtain w ws where ws: "py_split [c] xs = w # ws"
      by (cases "py_split [c] xs") auto
    have w: "set w \<subseteq> set xs" and r: "\<And>q. q \<in> set ws \<Longrightarrow> set q \<subseteq> set xs"
      using Cons.IH ws by auto
    from Cons.prems False ws have "p = x # w \<or> p \<in> set ws" by auto
    then show ?thesis using w r by auto
  qed
qed

lemma py_split_char_present: "c \<in> set s \<Longrightarrow> 2 \<le> length (py_split [c] s)"
proof (induction s)
  case Nil
  then show ?case by simp
next
  case (Cons x xs)
  show ?case
  proof (cases "x = c")
    case True
    have "py_split [c] xs \<noteq> []" by simp
    then have "1 \<le> length (py_split [c] xs)" by (cases "py_split [c] xs") auto
    with True show ?thesis by simp
  next
    case False
    obtain w ws where ws: "py_split [c] xs = w # ws"
      by (cases "py_split [c] xs") auto
    with Cons False show ?thesis by auto
  qed
qed

lemma is_digit_digit_char: "d < 10 \<Longrightarrow> is_digit (digit_char d)"
  by (simp add: is_digit_def digit_char_def)

lemma digit_val_digit_char: "d < 10 \<Longrightarrow> digit_val (digit_char d) = d"
  by (simp add: digit_val_def digit_char_def)

lemma str_nat_digits: "c \<in> set (str_nat n) \<Longrightarrow> is_digit c"
proof (induction n arbitrary: c rule: str_nat.induct)
  case (1 n)
  show ?case
  proof (cases "n < 10")
    case True
    with "1.prems" show ?thesis by (simp add: str_nat.simps [of n] is_digit_digit_char)
  next
    case False
    with "1.prems" "1.IH" show ?thesis
      by (auto simp: str_nat.simps [of n] is_digit_digit_char)
  qed
qed

lemma str_nat_not_Nil [simp]: "str_nat n \<noteq> []"
  by (simp add: str_nat.simps [of n])

lemma digits_value_snoc:
  "is_digit c \<Longrightarrow> digits_value (s @ [c]) = 10 * digits_value s + digit_val c"
  by (simp add: digits_value_def)

lemma digits_value_str_nat: "digits_value (str_nat n) = n"
proof (induction n rule: str_nat.induct)
  case (1 n)
  show ?case
  proof (cases "n < 10")
    case True
    then show ?thesis
      by (simp add: str_nat.simps [of n] digits_value_def is_digit_digit_char digit_val_digit_char)
  next
    case False
    with "1.IH" show ?thesis
      by (simp add: str_nat.simps [of n] digits_value_snoc is_digit_digit_char digit_val_digit_char)
  qed
qed

lemma digit_groups_all_digits: "s \<noteq> [] \<Longrightarrow> \<forall>c\<in>set s. is_digit c \<Longrightarrow> digit_groups s"
proof (induction s rule: digit_groups.induct)
  case 1
  then show ?case by simp
next
  case (2 c)
  then show ?case by simp
next
  case (3 c d r)
  have "d \<noteq> CHR ''_''"
    using "3.prems" by (auto simp: is_digit_def)
  with 3 show ?case by simp
qed

lemma is_digit_not_int_space: "is_digit c \<Longrightarrow> \<not> is_int_space c"
  by (auto simp: is_digit_def is_int_space_def Let_def)

lemma dropWhile_keep: "s \<noteq> [] \<Longrightarrow> \<not> P (hd s) \<Longrightarrow> dropWhile P s = s"
  by (cases s) auto

lemma py_int_all_digits:
  assumes "s \<noteq> []" and "\<forall>c\<in>set s. is_digit c"
  shows "py_int s = Some (int (digits_value s))"
proof -
  have h: "\<not> is_int_space (hd s)" and l: "\<not> is_int_space (last s)"
    using assms hd_in_set [of s] last_in_set [of s] by (auto dest: is_digit_not_int_space)
  have "dropWhile is_int_space s = s"
    using assms(1) h by (rule dropWhile_keep)
  moreover have "dropWhile is_int_space (rev s) = rev s"
    using assms(1) l by (intro dropWhile_keep) (auto simp: hd_rev)
  ultimately have t: "rev (dropWhile is_int_space (rev (dropWhile is_int_space s))) = s"
    by simp
  obtain c r where s: "s = c # r" using assms(1) by (cases s) auto
  have "is_digit c" using assms(2) s by simp
  then have "c \<noteq> CHR ''-''" "c \<noteq> CHR ''+''" by (auto simp: is_digit_def)
  moreover have "digit_groups s" using assms by (rule digit_groups_all_digits)
  ultimately show ?thesis
    unfolding py_int_def t by (simp add: s)
qed

lemma digits_value_zeros: "digits_value (replicate k CHR ''0'' @ s) = digits_value s"
proof -
  have z: "is_digit CHR ''0''" by (simp add: is_digit_def)
  have "foldl (\<lambda>a c. 10 * a + digit_val c) 0 (replicate k CHR ''0'') = 0"
    by (induction k) (auto simp: digit_val_def)
  then show ?thesis by (simp add: digits_value_def z)
qed

lemma fmt_d_digits: "0 \<le> i \<Longrightarrow> c \<in> set (fmt_d w i) \<Longrightarrow> is_digit c"
  by (auto simp: fmt_d_def rjust_def is_digit_def dest: str_nat_digits)

lemma py_int_fmt_d: "0 \<le> i \<Longrightarrow> py_int (fmt_d w i) = Some i"
proof -
  assume i: "0 \<le> i"
  have ne: "fmt_d w i \<noteq> []" using i by (simp add: fmt_d_def rjust_def)
  have "py_int (fmt_d w i) = Some (int (digits_value (fmt_d w i)))"
    using ne fmt_d_digits [OF i] by (intro py_int_all_digits) auto
  also have "digits_value (fmt_d w i) = nat i"
    using i by (simp add: fmt_d_def rjust_def digits_value_zeros digits_value_str_nat)
  finally show ?thesis using i by simp
qed

lemma is_digit_not_punct:
  "is_digit c \<Longrightarrow> c \<noteq> CHR '':'' \<and> c \<noteq> CHR '','' \<and> c \<noteq> CHR ''.''"
  by (auto simp: is_digit_def)

lemma fmt_d_no_punct:
  assumes "0 \<le> i"
  shows "CHR '':'' \<notin> set (fmt_d w i)" "CHR '','' \<notin> set (fmt_d w i)" "CHR ''.'' \<notin> set (fmt_d w i)"
  using fmt_d_digits [OF assms] is_digit_not_punct by blast+

lemma py_replace_absent: "a \<notin> set s \<Longrightarrow> py_replace a b s = s"
  by (induction s) (auto simp: py_replace_def)

lemma millis_field:
  assumes "CHR '':'' \<notin> set q" and "CHR '','' \<notin> set q"
  shows "length (take 3 (ljust 3 CHR ''0'' q)) = 3"
    and "CHR '':'' \<notin> set (take 3 (ljust 3 CHR ''0'' q))"
    and "CHR '','' \<notin> set (take 3 (ljust 3 CHR ''0'' q))"
proof -
  show "length (take 3 (ljust 3 CHR ''0'' q)) = 3"
    by (simp add: ljust_def)
  have "set (take 3 (ljust 3 CHR ''0'' q)) \<subseteq> set q \<union> {CHR ''0''}"
    using set_take_subset [of 3 "ljust 3 CHR ''0'' q"] by (auto simp: ljust_def)
  with assms show "CHR '':'' \<notin> set (take 3 (ljust 3 CHR ''0'' q))"
    and "CHR '','' \<notin> set (take 3 (ljust 3 CHR ''0'' q))"
    by auto
qed

lemma py_split_second_piece:
  assumes "c \<in> set s"
  shows "py_split [c] s ! 1 \<in> set (py_split [c] s)"
  using py_split_char_present [OF assms] by simp

lemma validate_timestamp_Some:
  assumes "validate_timestamp s = Some t"
  shows "\<exists>hh mm ss h m sec ms.
           py_split '':'' s = [hh, mm, ss] \<and> py_int hh = Some h \<and> py_int mm = Some m \<and>
           py_int (py_split ''.'' (py_replace CHR '','' CHR ''.'' ss) ! 0) = Some sec \<and>
           0 \<le> h \<and> 0 \<le> m \<and> m < 60 \<and> 0 \<le> sec \<and> sec < 60 \<and>
           length ms = 3 \<and> CHR '':'' \<notin> set ms \<and> CHR '','' \<notin> set ms \<and>
           t = fmt_d 2 h @ '':'' @ fmt_d 2 m @ '':'' @ fmt_d 2 sec @ '','' @ ms"
proof -
  let ?parts = "py_split '':'' s"
  from assms have len: "length ?parts = 3"
    by (auto simp: validate_timestamp_def Let_def split: if_splits)
  then obtain hh mm ss where parts: "?parts = [hh, mm, ss]"
    by (auto simp: length_Suc_conv numeral_3_eq_3)
  have "ss \<in> set ?parts" using parts by simp
  then have ss_colon: "CHR '':'' \<notin> set ss" by (rule py_split_char_piece)
  let ?secs = "py_split ''.'' (py_replace CHR '','' CHR ''.'' ss) ! 0"
  from assms parts obtain h m sec where
    h: "py_int hh = Some h" and m: "py_int mm = Some m" and sec: "py_int ?secs = Some sec"
    by (auto simp: validate_timestamp_def Let_def split: if_splits option.splits)
  from assms parts h m sec have range: "0 \<le> h" "0 \<le> m" "m < 60" "0 \<le> sec" "sec < 60"
    by (auto simp: validate_timestamp_def Let_def split: if_splits)
  let ?ms = "if CHR '','' \<in> set ss then take 3 (ljust 3 CHR ''0'' (py_split '','' ss ! 1))
             else if CHR ''.'' \<in> set ss then take 3 (ljust 3 CHR ''0'' (py_split ''.'' ss ! 1))
             else ''000''"
  from assms parts h m sec range
  have t: "t = fmt_d 2 h @ '':'' @ fmt_d 2 m @ '':'' @ fmt_d 2 sec @ '','' @ ?ms"
    by (auto simp: validate_timestamp_def Let_def split: if_splits)
  have ms: "length ?ms = 3 \<and> CHR '':'' \<notin> set ?ms \<and> CHR '','' \<notin> set ?ms"
  proof (cases "CHR '','' \<in> set ss")
    case True
    let ?q = "py_split '','' ss ! 1"
    have q: "?q \<in> set (py_split '','' ss)" using True by (rule py_split_second_piece)
    have "CHR '','' \<notin> set ?q" using q by (rule py_split_char_piece)
    moreover have "CHR '':'' \<notin> set ?q" using py_split_char_subset [OF q] ss_colon by auto
    ultimately show ?thesis using True millis_field [of ?q] by simp
  next
    case False
    show ?thesis
    proof (cases "CHR ''.'' \<in> set ss")
      case True
      let ?q = "py_split ''.'' ss ! 1"
      have q: "?q \<in> set (py_split ''.'' ss)" using True by (rule py_split_second_piece)
      have "set ?q \<subseteq> set ss" using q by (rule py_split_char_subset)
      then have "CHR '','' \<notin> set ?q" "CHR '':'' \<notin> set ?q"
        using False ss_colon by auto
      then show ?thesis using True False millis_field [of ?q] by simp
    next
      case dot: False
      with False show ?thesis by simp
    qed
  qed
  show ?thesis
    using parts h m sec range t ms by blast
qed

lemma validate_timestamp_normal_form:
  assumes "0 \<le> h" "0 \<le> m" "m < 60" "0 \<le> sec" "sec < 60"
    and "length ms = 3" "CHR '':'' \<notin> set ms" "CHR '','' \<notin> set ms"
  shows "validate_timestamp (fmt_d 2 h @ '':'' @ fmt_d 2 m @ '':'' @ fmt_d 2 sec @ '','' @ ms)
         = Some (fmt_d 2 h @ '':'' @ fmt_d 2 m @ '':'' @ fmt_d 2 sec @ '','' @ ms)"
proof -
  let ?H = "fmt_d 2 h" and ?M = "fmt_d 2 m" and ?S = "fmt_d 2 sec"
  let ?ss = "?S @ CHR '','' # ms"
  have ss_colon: "CHR '':'' \<notin> set ?ss"
    using fmt_d_no_punct(1) [OF assms(4)] assms(7) by simp
  have "py_split '':'' (?H @ CHR '':'' # ?M @ CHR '':'' # ?ss) = [?H, ?M, ?ss]"
    using fmt_d_no_punct(1) [OF assms(1)] fmt_d_no_punct(1) [OF assms(2)] ss_colon
    by (simp add: py_split_char_append py_split_char_absent)
  then have parts: "py_split '':'' (?H @ '':'' @ ?M @ '':'' @ ?S @ '','' @ ms) = [?H, ?M, ?ss]"
    by simp
  have "py_replace CHR '','' CHR ''.'' ?ss = ?S @ CHR ''.'' # py_replace CHR '','' CHR ''.'' ms"
    using py_replace_absent [OF fmt_d_no_punct(2) [OF assms(4)]]
    by (simp add: py_replace_def)
  then have secs: "py_split ''.'' (py_replace CHR '','' CHR ''.'' ?ss) ! 0 = ?S"
    using fmt_d_no_punct(3) [OF assms(4)] by (simp add: py_split_char_append)
  have frac: "py_split '','' ?ss ! Suc 0 = ms"
    using fmt_d_no_punct(2) [OF assms(4)] assms(8)
    by (simp add: py_split_char_append py_split_char_absent)
  have ms: "take 3 (ljust 3 CHR ''0'' ms) = ms"
    using assms(6) by (simp add: ljust_def)
  show ?thesis
    unfolding validate_timestamp_def parts
    using assms(1-5)
    by (simp add: Let_def secs frac ms py_int_fmt_d del: append_assoc)
qed

lemma py_split_blank_block:
  "b \<noteq> [] \<Longrightarrow> last b \<noteq> CHR 0x0A \<Longrightarrow> \<not> has_blank_line b \<Longrightarrow>
   py_split ''\<newline>\<newline>'' (b @ ''\<newline>\<newline>'' @ rest) = b # py_split ''\<newline>\<newline>'' rest"
proof (induction b)
  case Nil
  then show ?case by simp
next
  case (Cons x xs)
  show ?case
  proof (cases xs)
    case Nil
    with Cons.prems show ?thesis by simp
  next
    case (Cons y ys)
    with Cons.prems Cons.IH show ?thesis by auto
  qed
qed

lemma line_then_text:
  "CHR 0x0A \<notin> set l \<Longrightarrow> l \<noteq> [] \<Longrightarrow> t \<noteq> [] \<Longrightarrow> hd t \<noteq> CHR 0x0A \<Longrightarrow> \<not> has_blank_line t \<Longrightarrow>
   \<not> has_blank_line (l @ CHR 0x0A # t)"
proof (induction l)
  case Nil
  then show ?case by simp
next
  case (Cons x xs)
  show ?case
  proof (cases xs)
    case Nil
    with Cons.prems show ?thesis by (cases t) auto
  next
    case (Cons y ys)
    with Cons.prems Cons.IH show ?thesis by auto
  qed
qed

lemma py_join_Cons_Cons: "py_join sep ((x # w) # ws) = x # py_join sep (w # ws)"
  by (cases ws) auto

lemma py_join_split: "py_join [c] (py_split [c] s) = s"
proof (induction s)
  case Nil
  then show ?case by simp
next
  case (Cons x xs)
  obtain w ws where ws: "py_split [c] xs = w # ws"
    by (cases "py_split [c] xs") auto
  with Cons show ?case by (auto simp: py_join_Cons_Cons)
qed

lemma py_strip_not_Nil: "s \<noteq> [] \<Longrightarrow> \<not> is_space (hd s) \<Longrightarrow> py_strip s \<noteq> []"
proof -
  assume s: "s \<noteq> []" and h: "\<not> is_space (hd s)"
  then have d: "dropWhile is_space s = s" by (cases s) auto
  have "hd s \<in> set (rev s)" using s by simp
  then have "dropWhile is_space (rev s) \<noteq> []"
    using h by (auto simp: dropWhile_eq_Nil_conv)
  then show ?thesis by (simp add: py_strip_def d)
qed

lemma is_digit_not_space: "is_digit c \<Longrightarrow> \<not> is_space c \<and> c \<noteq> CHR 0x0A"
  by (auto simp: is_digit_def is_space_def Let_def)

lemma str_nat_hd: "is_digit (hd (str_nat n))"
  using str_nat_digits [of "hd (str_nat n)" n] by simp

lemma str_nat_no_newline: "CHR 0x0A \<notin> set (str_nat n)"
  using str_nat_digits is_digit_not_space by blast

lemma srt_block_entry: "srt_block (idx, segment) = srt_entry idx segment @ ''\<newline>\<newline>''"
  by (simp add: srt_block_def srt_entry_def timing_line_def)

lemma timing_line_ok:
  assumes "srt_safe segment"
  shows "timing_line segment \<noteq> []" "CHR 0x0A \<notin> set (timing_line segment)"
  using assms by (auto simp: srt_safe_def timing_line_def)

lemma two_lines_then_text:
  assumes i: "CHR 0x0A \<notin> set i" "i \<noteq> []" and l: "CHR 0x0A \<notin> set l" "l \<noteq> []"
    and t: "text_ok t"
  shows "\<not> has_blank_line (i @ CHR 0x0A # (l @ CHR 0x0A # t))"
proof -
  from t have t': "t \<noteq> []" "hd t \<noteq> CHR 0x0A" "\<not> has_blank_line t"
    by (auto simp: text_ok_def)
  have inner: "\<not> has_blank_line (l @ CHR 0x0A # t)"
    by (rule line_then_text [OF l t'])
  have "hd (l @ CHR 0x0A # t) = hd l" using l(2) by simp
  moreover have "hd l \<noteq> CHR 0x0A" using l by (cases l) auto
  ultimately have h: "hd (l @ CHR 0x0A # t) \<noteq> CHR 0x0A" by simp
  have ne: "l @ CHR 0x0A # t \<noteq> []" by simp
  show ?thesis
    by (rule line_then_text [OF i ne h inner])
qed

lemma srt_entry_ok:
  assumes "srt_safe segment"
  shows "srt_entry idx segment \<noteq> []" "last (srt_entry idx segment) \<noteq> CHR 0x0A"
    "\<not> has_blank_line (srt_entry idx segment)"
proof -
  from assms have t: "text_ok (seg_text segment)" by (simp add: srt_safe_def)
  show "srt_entry idx segment \<noteq> []" by (simp add: srt_entry_def)
  show "last (srt_entry idx segment) \<noteq> CHR 0x0A"
    using t by (simp add: srt_entry_def text_ok_def)
  show "\<not> has_blank_line (srt_entry idx segment)"
    unfolding srt_entry_def
    by (rule two_lines_then_text
          [OF str_nat_no_newline str_nat_not_Nil timing_line_ok(2) [OF assms]
              timing_line_ok(1) [OF assms] t])
qed

lemma vtt_block_entry:
  assumes "srt_safe segment"
  shows "vtt_block (srt_entry idx segment) = vtt_cue segment"
proof -
  let ?t = "seg_text segment"
  have "hd (srt_entry idx segment) = hd (str_nat idx)"
    by (simp add: srt_entry_def)
  then have "\<not> is_space (hd (srt_entry idx segment))"
    using str_nat_hd [of idx] is_digit_not_space by simp
  then have strip: "py_strip (srt_entry idx segment) \<noteq> []"
    by (intro py_strip_not_Nil) (simp_all add: srt_entry_def)
  have "py_split [CHR 0x0A] (timing_line segment @ CHR 0x0A # ?t)
        = timing_line segment # py_split [CHR 0x0A] ?t"
    using timing_line_ok(2) [OF assms] by (rule py_split_char_append)
  moreover have "py_split [CHR 0x0A] (srt_entry idx segment)
        = str_nat idx # py_split [CHR 0x0A] (timing_line segment @ CHR 0x0A # ?t)"
    unfolding srt_entry_def using str_nat_no_newline by (rule py_split_char_append)
  ultimately have lines: "py_split [CHR 0x0A] (srt_entry idx segment)
               = str_nat idx # timing_line segment # py_split [CHR 0x0A] ?t"
    by simp
  have join: "py_join [CHR 0x0A] (py_split [CHR 0x0A] ?t) = ?t" by (rule py_join_split)
  have "3 \<le> length (py_split [CHR 0x0A] (srt_entry idx segment))"
    unfolding lines by (cases "py_split [CHR 0x0A] ?t") auto
  then show ?thesis
    using strip by (simp add: vtt_block_def lines vtt_cue_def Let_def join timing_line_def)
qed

lemma foldl_append_concat: "foldl (\<lambda>acc x. acc @ f x) init xs = init @ concat (map f xs)"
  by (induction xs arbitrary: init) auto

lemma py_split_srt:
  "\<forall>segment \<in> set segments. srt_safe segment \<Longrightarrow>
   py_split ''\<newline>\<newline>'' (concat (map srt_block (enumerate n segments)))
   = map (\<lambda>(idx, segment). srt_entry idx segment) (enumerate n segments) @ [[]]"
proof (induction segments arbitrary: n)
  case Nil
  then show ?case by simp
next
  case (Cons segment rest)
  have safe: "srt_safe segment" using Cons.prems by simp
  have "py_split ''\<newline>\<newline>'' (srt_entry n segment @ ''\<newline>\<newline>'' @ concat (map srt_block (enumerate (Suc n) rest)))
        = srt_entry n segment # py_split ''\<newline>\<newline>'' (concat (map srt_block (enumerate (Suc n) rest)))"
    using srt_entry_ok [OF safe] by (rule py_split_blank_block)
  then show ?case
    using Cons.IH [of "Suc n"] Cons.prems by (simp add: srt_block_entry)
qed

lemma vtt_of_entries:
  "\<forall>segment \<in> set segments. srt_safe segment \<Longrightarrow>
   concat (map vtt_block (map (\<lambda>(idx, segment). srt_entry idx segment) (enumerate n segments)))
   = concat (map vtt_cue segments)"
  by (induction segments arbitrary: n) (auto simp: vtt_block_entry)

lemma vtt_block_Nil: "vtt_block [] = []"
  by (simp add: vtt_block_def py_strip_def)

lemma srt_to_vtt_safe:
  assumes "\<forall>segment \<in> set segments. srt_safe segment"
  shows "save_srt_to_vtt (get_srt_content segments) = vtt_document segments"
proof -
  have "get_srt_content segments = concat (map srt_block (enumerate 1 segments))"
    by (simp add: get_srt_content_def foldl_append_concat)
  then show ?thesis
    using py_split_srt [OF assms, of 1] vtt_of_entries [OF assms, of 1]
    by (simp add: save_srt_to_vtt_def foldl_append_concat vtt_document_def vtt_block_Nil)
qed

section \<open>validate_timestamp\<close>

lemma length_py_split_char: "length (py_split [c] s) = Suc (count_list s c)"
proof (induction s)
  case Nil
  then show ?case by simp
next
  case (Cons x xs)
  obtain w ws where ws: "py_split [c] xs = w # ws"
    by (cases "py_split [c] xs") auto
  with Cons show ?case by auto
qed

lemma py_split_first_piece: "py_split [c] s ! 0 = takeWhile (\<lambda>x. x \<noteq> c) s"
proof (induction s)
  case Nil
  then show ?case by simp
next
  case (Cons x xs)
  obtain w ws where ws: "py_split [c] xs = w # ws"
    by (cases "py_split [c] xs") auto
  with Cons show ?case by auto
qed

lemma seconds_text_split:
  "py_split ''.'' (py_replace CHR '','' CHR ''.'' ss) ! 0 = seconds_text ss"
  unfolding py_split_first_piece seconds_text_def py_replace_def
  by (induction ss) auto

lemma validate_timestamp_None: "validate_timestamp s = None \<longleftrightarrow> hms_rejected s"
proof -
  have len: "length (py_split '':'' s) \<noteq> 3 \<longleftrightarrow> count_list s CHR '':'' \<noteq> 2"
    by (simp add: length_py_split_char)
  show ?thesis
    unfolding validate_timestamp_def hms_rejected_def Let_def len seconds_text_split
    by (auto split: option.splits)
qed

lemma str_nat_length3: "n < 1000 \<Longrightarrow> length (str_nat n) \<le> 3"
  by (simp add: str_nat.simps [of n] str_nat.simps [of "n div 10"]
        str_nat.simps [of "n div 10 div 10"])

lemma fmt_d_3_length: "0 \<le> ms \<Longrightarrow> ms < 1000 \<Longrightarrow> length (fmt_d 3 ms) = 3"
  using str_nat_length3 [of "nat ms"] by (simp add: fmt_d_def rjust_def)

lemma validate_srt_timestamp:
  assumes "0 \<le> h" "0 \<le> m" "m < 60" "0 \<le> sec" "sec < 60" "0 \<le> ms" "ms < 1000"
  shows "validate_timestamp (srt_timestamp h m sec ms) = Some (srt_timestamp h m sec ms)"
  unfolding srt_timestamp_def
  using assms(1-5) fmt_d_3_length [OF assms(6,7)] fmt_d_no_punct(1,2) [OF assms(6)]
  by (rule validate_timestamp_normal_form)

text \<open>
  Claim C7. \<open>validate_timestamp\<close> is idempotent: whenever it accepts a string, it accepts
  its own output and returns it unchanged. Every string in the form \<open>HH:MM:SS,mmm\<close>, with
  minutes and seconds below 60, is accepted and returned as it is.
\<close>

theorem validate_timestamp_idempotent:
  "(validate_timestamp s = Some t \<longrightarrow> validate_timestamp t = Some t) \<and>
   (0 \<le> h \<and> 0 \<le> m \<and> m < 60 \<and> 0 \<le> sec \<and> sec < 60 \<and> 0 \<le> ms \<and> ms < 1000 \<longrightarrow>
      validate_timestamp (srt_timestamp h m sec ms) = Some (srt_timestamp h m sec ms))"
proof (intro conjI impI)
  assume "validate_timestamp s = Some t"
  then obtain h' m' sec' ms' where
    r: "0 \<le> h'" "0 \<le> m'" "m' < 60" "0 \<le> sec'" "sec' < 60"
    "length ms' = 3" "CHR '':'' \<notin> set ms'" "CHR '','' \<notin> set ms'"
    and t: "t = fmt_d 2 h' @ '':'' @ fmt_d 2 m' @ '':'' @ fmt_d 2 sec' @ '','' @ ms'"
    using validate_timestamp_Some [of s t] by blast
  show "validate_timestamp t = Some t"
    unfolding t using r by (rule validate_timestamp_normal_form)
next
  assume "0 \<le> h \<and> 0 \<le> m \<and> m < 60 \<and> 0 \<le> sec \<and> sec < 60 \<and> 0 \<le> ms \<and> ms < 1000"
  then show "validate_timestamp (srt_timestamp h m sec ms) = Some (srt_timestamp h m sec ms)"
    by (intro validate_srt_timestamp) auto
qed

lemma validate_example_dot: "validate_timestamp ''1:2:3.5'' = Some ''01:02:03,500''"
  by code_simp

lemma validate_example_bad: "validate_timestamp ''bad'' = None"
  by code_simp

lemma srt_timestamp_example: "srt_timestamp 0 0 1 0 = ''00:00:01,000''"
  by code_simp

theorem validate_timestamp_idempotent_witness:
  "validate_timestamp ''1:2:3.5'' = Some ''01:02:03,500'' \<and>
   validate_timestamp ''01:02:03,500'' = Some ''01:02:03,500'' \<and>
   validate_timestamp ''00:00:01,000'' = Some ''00:00:01,000''"
  using validate_timestamp_idempotent [of "''1:2:3.5''" "''01:02:03,500''" 0 0 1 0]
  by (simp add: validate_example_dot srt_timestamp_example)

lemma py_split_map:
  "\<forall>x \<in> set s. f x = d \<longleftrightarrow> x = c \<Longrightarrow>
   py_split [d] (map f s) = map (map f) (py_split [c] s)"
proof (induction s)
  case Nil
  then show ?case by simp
next
  case (Cons x xs)
  obtain w ws where ws: "py_split [c] xs = w # ws"
    by (cases "py_split [c] xs") auto
  with Cons show ?case by auto
qed

lemma digit_groups_chars: "digit_groups s \<Longrightarrow> x \<in> set s \<Longrightarrow> is_digit x \<or> x = CHR ''_''"
  by (induction s rule: digit_groups.induct) (auto split: if_splits)

lemma set_dropWhile_cases: "x \<in> set s \<Longrightarrow> P x \<or> x \<in> set (dropWhile P s)"
  by (induction s) (auto split: if_splits)

lemma py_int_chars:
  assumes "py_int s = Some v" and "x \<in> set s"
  shows "is_int_space x \<or> is_digit x \<or> x = CHR ''_'' \<or> x = CHR ''-'' \<or> x = CHR ''+''"
proof (cases "is_int_space x")
  case True
  then show ?thesis by simp
next
  case False
  define u where "u = dropWhile is_int_space s"
  define t where "t = rev (dropWhile is_int_space (rev u))"
  have "x \<in> set u"
    using set_dropWhile_cases [of x s is_int_space] assms(2) False by (simp add: u_def)
  then have "x \<in> set (rev u)" by simp
  then have "x \<in> set (dropWhile is_int_space (rev u))"
    using set_dropWhile_cases [of x "rev u" is_int_space] False by simp
  then have x: "x \<in> set t" by (simp add: t_def)
  have unfold: "py_int s =
    (case t of [] \<Rightarrow> None
     | c # r \<Rightarrow>
         if c = CHR ''-'' then (if digit_groups r then Some (- int (digits_value r)) else None)
         else if c = CHR ''+'' then (if digit_groups r then Some (int (digits_value r)) else None)
         else if digit_groups t then Some (int (digits_value t)) else None)"
    unfolding py_int_def t_def u_def Let_def by (rule refl)
  show ?thesis
  proof (cases t)
    case Nil
    with unfold assms(1) show ?thesis by simp
  next
    case (Cons c r)
    have groups: "(c = CHR ''-'' \<or> c = CHR ''+'') \<and> digit_groups r \<or> digit_groups t"
    proof (rule ccontr)
      assume "\<not> ((c = CHR ''-'' \<or> c = CHR ''+'') \<and> digit_groups r \<or> digit_groups t)"
      then have "py_int s = None" unfolding unfold Cons by auto
      with assms(1) show False by simp
    qed
    from x Cons have "x = c \<or> x \<in> set r" by simp
    then show ?thesis
      using groups digit_groups_chars [of r x] digit_groups_chars [of t x] x by blast
  qed
qed

lemma py_int_no_separator:
  "py_int s = Some v \<Longrightarrow> CHR '','' \<notin> set s \<and> CHR ''.'' \<notin> set s"
  using py_int_chars [of s v "CHR '',''"] py_int_chars [of s v "CHR ''.''"]
  by (auto simp: is_int_space_def is_digit_def)

lemma py_int_comma_to_dot:
  assumes "CHR ''.'' \<notin> set p"
  shows "py_int (py_replace CHR '','' CHR ''.'' p) = py_int p"
proof (cases "CHR '','' \<in> set p")
  case False
  then show ?thesis by (simp add: py_replace_absent)
next
  case True
  then have "CHR ''.'' \<in> set (py_replace CHR '','' CHR ''.'' p)"
    by (auto simp: py_replace_def)
  then have "py_int (py_replace CHR '','' CHR ''.'' p) = None"
    using py_int_no_separator [of "py_replace CHR '','' CHR ''.'' p"] by (cases "py_int (py_replace CHR '','' CHR ''.'' p)") auto
  moreover have "py_int p = None"
    using True py_int_no_separator [of p] by (cases "py_int p") auto
  ultimately show ?thesis by simp
qed

lemma py_replace_idem: "py_replace a b (py_replace a b s) = py_replace a b s"
  by (induction s) (auto simp: py_replace_def)


lemma millis_text_length: "length (millis_text ss) = 3"
  by (auto simp: millis_text_def ljust_def)

lemma validate_timestamp_parts:
  assumes "py_split '':'' s = [hh, mm, ss]"
  shows "validate_timestamp s =
     (case py_int hh of None \<Rightarrow> None | Some h \<Rightarrow>
      case py_int mm of None \<Rightarrow> None | Some m \<Rightarrow>
      case py_int (py_split ''.'' (py_replace CHR '','' CHR ''.'' ss) ! 0) of
        None \<Rightarrow> None
      | Some sec \<Rightarrow>
          if 0 \<le> h \<and> 0 \<le> m \<and> m < 60 \<and> 0 \<le> sec \<and> sec < 60
          then Some (fmt_d 2 h @ '':'' @ fmt_d 2 m @ '':'' @ fmt_d 2 sec @ '','' @ millis_text ss)
          else None)"
  unfolding validate_timestamp_def assms millis_text_def
  by (simp add: Let_def split: option.splits)

lemma validate_timestamp_separator:
  assumes "CHR ''.'' \<notin> set s"
  shows "validate_timestamp (py_replace CHR '','' CHR ''.'' s) = validate_timestamp s"
proof -
  let ?f = "py_replace CHR '','' CHR ''.''"
  have split: "py_split '':'' (?f s) = map ?f (py_split '':'' s)"
    unfolding py_replace_def by (rule py_split_map) auto
  show ?thesis
  proof (cases "length (py_split '':'' s) = 3")
    case False
    then show ?thesis by (simp add: validate_timestamp_def split)
  next
    case True
    then obtain hh mm ss where parts: "py_split '':'' s = [hh, mm, ss]"
      by (auto simp: length_Suc_conv numeral_3_eq_3)
    have sub: "set hh \<subseteq> set s" "set mm \<subseteq> set s" "set ss \<subseteq> set s"
      using py_split_char_subset [of _ "CHR '':''" s] parts by auto
    then have nodot: "CHR ''.'' \<notin> set hh" "CHR ''.'' \<notin> set mm" "CHR ''.'' \<notin> set ss"
      using assms by auto
    have ints: "py_int (?f hh) = py_int hh" "py_int (?f mm) = py_int mm"
      using nodot by (simp_all add: py_int_comma_to_dot)
    have ms: "millis_text (?f ss) = millis_text ss"
    proof (cases "CHR '','' \<in> set ss")
      case False
      then show ?thesis by (simp add: py_replace_absent)
    next
      case True
      have no_comma: "CHR '','' \<notin> set (?f ss)" by (auto simp: py_replace_def)
      have dot: "CHR ''.'' \<in> set (?f ss)" using True by (auto simp: py_replace_def)
      have "py_split ''.'' (?f ss) = map ?f (py_split '','' ss)"
        unfolding py_replace_def using nodot(3) by (intro py_split_map) auto
      moreover have "1 < length (py_split '','' ss)"
        using py_split_char_present [OF True] by simp
      ultimately have "py_split ''.'' (?f ss) ! 1 = ?f (py_split '','' ss ! 1)"
        by simp
      moreover have "CHR '','' \<notin> set (py_split '','' ss ! 1)"
        using py_split_second_piece [OF True] by (rule py_split_char_piece)
      ultimately have "py_split ''.'' (?f ss) ! 1 = py_split '','' ss ! 1"
        by (simp add: py_replace_absent)
      then show ?thesis using True no_comma dot by (simp add: millis_text_def)
    qed
    have parts': "py_split '':'' (?f s) = [?f hh, ?f mm, ?f ss]"
      by (simp add: split parts)
    show ?thesis
      unfolding validate_timestamp_parts [OF parts] validate_timestamp_parts [OF parts']
        ints ms py_replace_idem
      by (rule refl)
  qed
qed

text \<open>
  What the code does. \<open>validate_timestamp\<close> returns \<open>None\<close> exactly on the strings that fail
  the test \<open>hms_rejected\<close>. Otherwise the result is the hours, minutes and seconds zero-padded
  to two digits, a comma and three characters of milliseconds. The separator of the input
  does not matter: writing dots for the commas of a string without dots leaves the result
  unchanged. \<open>"1:2:3.5"\<close> gives \<open>"01:02:03,500"\<close>, and \<open>"bad"\<close> gives \<open>None\<close>.
\<close>

lemma validate_timestamp_behaviour:
  "(validate_timestamp s = None \<longleftrightarrow> hms_rejected s) \<and>
   (\<forall>t. validate_timestamp s = Some t \<longrightarrow>
      (\<exists>hours minutes seconds.
         py_int (py_split '':'' s ! 0) = Some hours \<and>
         py_int (py_split '':'' s ! 1) = Some minutes \<and>
         py_int (seconds_text (py_split '':'' s ! 2)) = Some seconds \<and>
         0 \<le> hours \<and> 0 \<le> minutes \<and> minutes < 60 \<and> 0 \<le> seconds \<and> seconds < 60 \<and>
         length (millis_text (py_split '':'' s ! 2)) = 3 \<and>
         t = fmt_d 2 hours @ '':'' @ fmt_d 2 minutes @ '':'' @ fmt_d 2 seconds
             @ '','' @ millis_text (py_split '':'' s ! 2))) \<and>
   (CHR ''.'' \<notin> set s \<longrightarrow>
      validate_timestamp (py_replace CHR '','' CHR ''.'' s) = validate_timestamp s) \<and>
   validate_timestamp ''1:2:3.5'' = Some ''01:02:03,500'' \<and>
   validate_timestamp ''bad'' = None"
proof (intro conjI allI impI)
  show "validate_timestamp s = None \<longleftrightarrow> hms_rejected s"
    by (rule validate_timestamp_None)
next
  fix t
  assume t: "validate_timestamp s = Some t"
  from validate_timestamp_Some [OF t] obtain hh mm ss where
    parts: "py_split '':'' s = [hh, mm, ss]" by blast
  have nth: "py_split '':'' s ! 0 = hh" "py_split '':'' s ! 1 = mm" "py_split '':'' s ! 2 = ss"
    by (simp_all add: parts)
  from t obtain hours minutes seconds where
    "py_int hh = Some hours" "py_int mm = Some minutes"
    "py_int (seconds_text ss) = Some seconds"
    "0 \<le> hours" "0 \<le> minutes" "minutes < 60" "0 \<le> seconds" "seconds < 60"
    and out: "t = fmt_d 2 hours @ '':'' @ fmt_d 2 minutes @ '':'' @ fmt_d 2 seconds
               @ '','' @ millis_text ss"
    unfolding validate_timestamp_parts [OF parts] seconds_text_split
    by (auto split: option.splits if_splits)
  moreover have "length (millis_text ss) = 3"
    by (rule millis_text_length)
  ultimately show "\<exists>hours minutes seconds.
         py_int (py_split '':'' s ! 0) = Some hours \<and>
         py_int (py_split '':'' s ! 1) = Some minutes \<and>
         py_int (seconds_text (py_split '':'' s ! 2)) = Some seconds \<and>
         0 \<le> hours \<and> 0 \<le> minutes \<and> minutes < 60 \<and> 0 \<le> seconds \<and> seconds < 60 \<and>
         length (millis_text (py_split '':'' s ! 2)) = 3 \<and>
         t = fmt_d 2 hours @ '':'' @ fmt_d 2 minutes @ '':'' @ fmt_d 2 seconds
             @ '','' @ millis_text (py_split '':'' s ! 2)"
    unfolding nth by blast
next
  assume "CHR ''.'' \<notin> set s"
  then show "validate_timestamp (py_replace CHR '','' CHR ''.'' s) = validate_timestamp s"
    by (rule validate_timestamp_separator)
qed (rule validate_example_dot validate_example_bad)+

lemma rejected_example: "hms_rejected ''1:75:3''"
  by code_simp

lemma comma_example:
  "CHR ''.'' \<notin> set ''1:2:3,5''" "py_replace CHR '','' CHR ''.'' ''1:2:3,5'' = ''1:2:3.5''"
  by code_simp+

lemma validate_timestamp_behaviour_examples:
  "hms_rejected ''1:75:3'' \<and> validate_timestamp ''1:75:3'' = None \<and>
   validate_timestamp ''1:2:3.5'' = Some ''01:02:03,500'' \<and>
   (\<exists>hours minutes seconds.
      py_int (py_split '':'' ''1:2:3.5'' ! 0) = Some hours \<and> 0 \<le> hours \<and>
      length (millis_text (py_split '':'' ''1:2:3.5'' ! 2)) = 3 \<and>
      ''01:02:03,500'' = fmt_d 2 hours @ '':'' @ fmt_d 2 minutes @ '':'' @ fmt_d 2 seconds
             @ '','' @ millis_text (py_split '':'' ''1:2:3.5'' ! 2)) \<and>
   CHR ''.'' \<notin> set ''1:2:3,5'' \<and>
   validate_timestamp ''1:2:3,5'' = Some ''01:02:03,500''"
proof -
  have a: "validate_timestamp ''1:75:3'' = None"
    using validate_timestamp_behaviour [of "''1:75:3''"] rejected_example by blast
  have b: "validate_timestamp ''1:2:3.5'' = Some ''01:02:03,500''"
    by (rule validate_example_dot)
  have c: "\<exists>hours minutes seconds.
      py_int (py_split '':'' ''1:2:3.5'' ! 0) = Some hours \<and> 0 \<le> hours \<and>
      length (millis_text (py_split '':'' ''1:2:3.5'' ! 2)) = 3 \<and>
      ''01:02:03,500'' = fmt_d 2 hours @ '':'' @ fmt_d 2 minutes @ '':'' @ fmt_d 2 seconds
             @ '','' @ millis_text (py_split '':'' ''1:2:3.5'' ! 2)"
    using validate_timestamp_behaviour [of "''1:2:3.5''"] b by blast
  have "validate_timestamp (py_replace CHR '','' CHR ''.'' ''1:2:3,5'')
        = validate_timestamp ''1:2:3,5''"
    using validate_timestamp_behaviour [of "''1:2:3,5''"] comma_example(1) by blast
  then have d: "validate_timestamp ''1:2:3,5'' = Some ''01:02:03,500''"
    using b by (simp only: comma_example(2))
  from a b c d rejected_example comma_example(1) show ?thesis by blast
qed

lemma validate_timestamp_None_rejected:
  "validate_timestamp s = None \<Longrightarrow> timestamp_rejected s"
  by (simp add: validate_timestamp_None timestamp_rejected_def)

lemma unparsed_milliseconds_rejected: "timestamp_rejected ''1:2:3,abc''"
  by code_simp

lemma validate_timestamp_signed_milliseconds:
  "validate_timestamp ''0:0:0,-1'' = Some ''00:00:00,-10''"
  by code_simp

text \<open>
  Claim C6 (\<open>None\<close> exactly when the input does not split into three colon-separated parts,
  a numeric part fails to parse, the hours are negative, or the minutes or seconds are
  outside \<open>[0, 60)\<close>). The code breaks it on the milliseconds, which it never parses: what
  follows the separator is copied, cut or padded to three characters. For \<open>"1:2:3,abc"\<close>,
  whose milliseconds are not a number, the result is \<open>"01:02:03,abc"\<close> and not \<open>None\<close>.
  A result of \<open>None\<close> does mean that the timestamp is rejected
  (\<open>validate_timestamp_None_rejected\<close>); the converse is what fails.
\<close>

theorem validate_timestamp_unparsed_milliseconds:
  "validate_timestamp ''1:2:3,abc'' = Some ''01:02:03,abc''"
  by code_simp

section \<open>SRT and VTT\<close>

text \<open>
  Claim C8. The segment list \<open>[{start: "00:00:01,000", end: "00:00:03,000", text: "Hi"}]\<close>
  is serialized to the SRT text \<open>"1\n00:00:01,000 --> 00:00:03,000\nHi\n\n"\<close>, which is
  converted to the VTT text \<open>"WEBVTT\n\n00:00:01.000 --> 00:00:03.000\nHi\n\n"\<close>.
\<close>

theorem srt_vtt_example:
  "get_srt_content [\<lparr>seg_start = ''00:00:01,000'', seg_end = ''00:00:03,000'', seg_text = ''Hi''\<rparr>]
     = ''1\<newline>00:00:01,000 --> 00:00:03,000\<newline>Hi\<newline>\<newline>'' \<and>
   save_srt_to_vtt ''1\<newline>00:00:01,000 --> 00:00:03,000\<newline>Hi\<newline>\<newline>''
     = ''WEBVTT\<newline>\<newline>00:00:01.000 --> 00:00:03.000\<newline>Hi\<newline>\<newline>''"
  by code_simp

text \<open>
  Claim C5, as stated, fails: a segment with an empty text is serialized to a block of two
  lines, which the conversion skips, so the VTT text of one segment has no cue.
\<close>

theorem srt_to_vtt_drops_empty_text:
  "save_srt_to_vtt
     (get_srt_content [\<lparr>seg_start = ''00:00:01,000'', seg_end = ''00:00:03,000'', seg_text = ''''\<rparr>])
     = ''WEBVTT\<newline>\<newline>'' \<and>
   save_srt_to_vtt
     (get_srt_content [\<lparr>seg_start = ''00:00:01,000'', seg_end = ''00:00:03,000'', seg_text = ''''\<rparr>])
     \<noteq> vtt_document [\<lparr>seg_start = ''00:00:01,000'', seg_end = ''00:00:03,000'', seg_text = ''''\<rparr>]"
  by code_simp

text \<open>
  Claim C5, amended. For every segment list whose timestamps have no line break and whose
  texts are not empty, neither start nor end with a line break and have no blank line,
  converting the SRT serialization gives the header \<open>WEBVTT\<close> once, at the start, then one
  cue per segment in order: the timing line with its commas turned into dots, without the
  index line, and the text unchanged. A block of fewer than three lines adds nothing to the
  output.
\<close>

theorem srt_to_vtt_document:
  "((\<forall>segment \<in> set segments. srt_safe segment) \<longrightarrow>
      save_srt_to_vtt (get_srt_content segments) = vtt_document segments) \<and>
   (length (py_split ''\<newline>'' block) < 3 \<longrightarrow> vtt_block block = [])"
  using srt_to_vtt_safe [of segments] by (auto simp: vtt_block_def)

lemma srt_safe_example:
  "srt_safe \<lparr>seg_start = ''00:00:01,000'', seg_end = ''00:00:03,000'', seg_text = ''Hi''\<rparr>"
  by code_simp

lemma short_block_example: "length (py_split ''\<newline>'' ''1\<newline>only'') < 3"
  by code_simp

theorem srt_to_vtt_document_witness:
  "srt_safe \<lparr>seg_start = ''00:00:01,000'', seg_end = ''00:00:03,000'', seg_text = ''Hi''\<rparr> \<and>
   save_srt_to_vtt
     (get_srt_content [\<lparr>seg_start = ''00:00:01,000'', seg_end = ''00:00:03,000'', seg_text = ''Hi''\<rparr>])
     = vtt_document [\<lparr>seg_start = ''00:00:01,000'', seg_end = ''00:00:03,000'', seg_text = ''Hi''\<rparr>] \<and>
   length (py_split ''\<newline>'' ''1\<newline>only'') < 3 \<and>
   vtt_block ''1\<newline>only'' = []"
  using srt_to_vtt_document
    [of "[\<lparr>seg_start = ''00:00:01,000'', seg_end = ''00:00:03,000'', seg_text = ''Hi''\<rparr>]"
        "''1\<newline>only''"]
    srt_safe_example short_block_example
  by simp

section \<open>TranslationService\<close>

text \<open>
  Claim C4 (never raises; a malformed body moves on to the next endpoint). The code breaks
  it: the handler catches \<open>requests.RequestException\<close> only. When an endpoint answers with
  status 200 and the JSON body \<open>null\<close>, the test \<open>"translatedText" in result\<close> raises
  \<open>TypeError\<close>, which leaves \<open>translate_text\<close>; no further endpoint is tried and the
  input is not returned.
\<close>

theorem translate_text_raises_on_null_body:
  "translate_text (\<lambda>url payload timeout. Response 200 (JsonValue JNull)) ''Hello'' ''es''
   = Inl TypeError"
  by code_simp

text \<open>
  What does hold: a blank input is returned without a request, and when every endpoint
  fails in one of the absorbed ways the input is returned.
\<close>

lemma translate_text_blank: "py_strip text = [] \<Longrightarrow> translate_text net text target = Inr (JStr text)"
  by (simp add: translate_text_def)

lemma try_servers_all_fail:
  "\<forall>server \<in> set servers. endpoint_fails (net (server @ ''/translate'') payload TIMEOUT) \<Longrightarrow>
   try_servers net payload text servers = Inr (JStr text)"
  by (induction servers) (auto simp: endpoint_fails_def split: reply.splits json_result.splits)

lemma translate_text_all_fail:
  assumes "\<forall>server \<in> set SERVERS.
             endpoint_fails (net (server @ ''/translate'')
               \<lparr>payload_q = text, payload_source = ''auto'', payload_target = target,
                payload_format = ''text''\<rparr> TIMEOUT)"
  shows "translate_text net text target = Inr (JStr text)"
  using assms by (simp add: translate_text_def try_servers_all_fail)

lemma in_texts_to_translate:
  "p \<in> set (texts_to_translate texts) \<longleftrightarrow>
   fst p < length texts \<and> snd p = texts ! fst p \<and> py_strip (snd p) \<noteq> []"
  by (cases p) (auto simp: texts_to_translate_def in_set_enumerate_eq)

lemma length_store_result [simp]: "length (store_result nets target rs p) = length rs"
  by (cases p) (simp add: store_result_def split: sum.splits)

lemma length_foldl_store_result [simp]:
  "length (foldl (store_result nets target) rs ds) = length rs"
  by (induction ds arbitrary: rs) auto

lemma nth_store_result:
  "i < length rs \<Longrightarrow>
   store_result nets target rs (j, t) ! i =
     (if j = i then (case translate_text (nets i) t target of Inr v \<Rightarrow> v | Inl e \<Rightarrow> rs ! i)
      else rs ! i)"
  by (auto simp: store_result_def split: sum.splits)

lemma nth_foldl_store_result:
  assumes "\<forall>p \<in> set ds. snd p = texts ! fst p" and "i < length rs"
  shows "foldl (store_result nets target) rs ds ! i =
           (if (i, texts ! i) \<in> set ds
            then (case translate_text (nets i) (texts ! i) target of Inr v \<Rightarrow> v | Inl e \<Rightarrow> rs ! i)
            else rs ! i)"
  using assms
proof (induction ds arbitrary: rs)
  case Nil
  then show ?case by simp
next
  case (Cons d ds)
  obtain j t where d: "d = (j, t)" by (cases d)
  have t: "t = texts ! j" using Cons.prems(1) d by simp
  have len: "i < length (store_result nets target rs d)" using Cons.prems(2) by simp
  have rest: "\<forall>p \<in> set ds. snd p = texts ! fst p" using Cons.prems(1) by simp
  have step: "store_result nets target rs d ! i =
     (if j = i then (case translate_text (nets i) (texts ! i) target of Inr v \<Rightarrow> v | Inl e \<Rightarrow> rs ! i)
      else rs ! i)"
    using nth_store_result [OF Cons.prems(2), of nets target j t] d t by auto
  show ?case
    using Cons.IH [OF rest len] step d t
    by (auto split: sum.splits)
qed

text \<open>
  Claim C2. Whatever the order in which the futures complete (each submitted task
  completing), \<open>translate_batch\<close> returns a list of the length of its input in which entry
  \<open>i\<close> is the input text when that text is blank or when its translation raises, and the
  translation otherwise.
\<close>

theorem translate_batch_aligned:
  assumes "set (as_completed (texts_to_translate texts)) = set (texts_to_translate texts)"
  shows "length (translate_batch nets as_completed texts target_language) = length texts \<and>
         (\<forall>i < length texts.
            translate_batch nets as_completed texts target_language ! i =
              (if py_strip (texts ! i) = [] then JStr (texts ! i)
               else case translate_text (nets i) (texts ! i) target_language of
                      Inr translated_text \<Rightarrow> translated_text
                    | Inl e \<Rightarrow> JStr (texts ! i)))"
proof (cases "texts_to_translate texts = []")
  case True
  then have "\<forall>i < length texts. py_strip (texts ! i) = []"
    using in_texts_to_translate [of _ texts]
    by (metis empty_iff fst_conv list.set(1) snd_conv)
  with True show ?thesis by (simp add: translate_batch_def)
next
  case False
  let ?ds = "as_completed (texts_to_translate texts)"
  have consistent: "\<forall>p \<in> set ?ds. snd p = texts ! fst p"
    using assms in_texts_to_translate by blast
  have member: "\<And>i. i < length texts \<Longrightarrow>
      (i, texts ! i) \<in> set ?ds \<longleftrightarrow> py_strip (texts ! i) \<noteq> []"
    using assms in_texts_to_translate [of _ texts] by auto
  have "\<And>i. i < length texts \<Longrightarrow>
      foldl (store_result nets target_language) (map JStr texts) ?ds ! i =
        (if py_strip (texts ! i) = [] then JStr (texts ! i)
         else case translate_text (nets i) (texts ! i) target_language of
                Inr translated_text \<Rightarrow> translated_text
              | Inl e \<Rightarrow> JStr (texts ! i))"
    using nth_foldl_store_result [OF consistent, of _ "map JStr texts" nets target_language] member
    by (auto split: sum.splits)
  with False show ?thesis by (simp add: translate_batch_def)
qed

lemma flaky_first: "translate_text (flaky_nets 0) ''a'' ''es'' = Inl TypeError"
  by code_simp

lemma flaky_texts:
  "py_strip ''a'' \<noteq> []" "py_strip '' '' = []" "py_strip ''b'' \<noteq> []"
  by code_simp+

lemma flaky_third: "translate_text (flaky_nets 2) ''b'' ''es'' = Inr (JStr ''b'')"
  by code_simp

theorem translate_batch_aligned_witness:
  "set (rev (texts_to_translate [''a'', '' '', ''b''])) = set (texts_to_translate [''a'', '' '', ''b'']) \<and>
   length (translate_batch flaky_nets rev [''a'', '' '', ''b''] ''es'') = 3 \<and>
   translate_text (flaky_nets 0) ''a'' ''es'' = Inl TypeError \<and>
   translate_batch flaky_nets rev [''a'', '' '', ''b''] ''es'' ! 0 = JStr ''a'' \<and>
   translate_batch flaky_nets rev [''a'', '' '', ''b''] ''es'' ! 1 = JStr '' '' \<and>
   translate_batch flaky_nets rev [''a'', '' '', ''b''] ''es'' ! 2 = JStr ''b''"
proof -
  have order: "set (rev (texts_to_translate [''a'', '' '', ''b'']))
               = set (texts_to_translate [''a'', '' '', ''b''])"
    by simp
  have aligned:
    "length (translate_batch flaky_nets rev [''a'', '' '', ''b''] ''es'') = length [''a'', '' '', ''b''] \<and>
     (\<forall>i < length [''a'', '' '', ''b''].
        translate_batch flaky_nets rev [''a'', '' '', ''b''] ''es'' ! i =
          (if py_strip ([''a'', '' '', ''b''] ! i) = [] then JStr ([''a'', '' '', ''b''] ! i)
           else case translate_text (flaky_nets i) ([''a'', '' '', ''b''] ! i) ''es'' of
                  Inr translated_text \<Rightarrow> translated_text
                | Inl e \<Rightarrow> JStr ([''a'', '' '', ''b''] ! i)))"
    using translate_batch_aligned [of rev "[''a'', '' '', ''b'']" flaky_nets "''es''"] order
    by blast
  from aligned have "translate_batch flaky_nets rev [''a'', '' '', ''b''] ''es'' ! 0 = JStr ''a''"
    by (simp add: flaky_first flaky_texts)
  moreover from aligned have "translate_batch flaky_nets rev [''a'', '' '', ''b''] ''es'' ! 1 = JStr '' ''"
    by (simp add: flaky_texts)
  moreover from aligned have "translate_batch flaky_nets rev [''a'', '' '', ''b''] ''es'' ! 2 = JStr ''b''"
    by (simp add: flaky_third flaky_texts)
  moreover from aligned have "length (translate_batch flaky_nets rev [''a'', '' '', ''b''] ''es'') = 3"
    by simp
  ultimately show ?thesis using order flaky_first by blast
qed

section \<open>The transcription worker\<close>

lemma digit_char_table:
  "digit_char 0 = CHR ''0''" "digit_char 1 = CHR ''1''" "digit_char (Suc 0) = CHR ''1''"
  "digit_char 2 = CHR ''2''" "digit_char 3 = CHR ''3''" "digit_char 4 = CHR ''4''"
  "digit_char 5 = CHR ''5''" "digit_char 6 = CHR ''6''" "digit_char 7 = CHR ''7''"
  "digit_char 8 = CHR ''8''" "digit_char 9 = CHR ''9''"
  by code_simp+

lemma timedelta_one_and_a_half:
  "timedelta_of_seconds (3 / 2) = Inr \<lparr>td_days = 0, td_seconds = 1, td_microseconds = 500000\<rparr>"
  by (simp add: timedelta_of_seconds_def round_half_even_def Let_def)

lemma timedelta_three:
  "timedelta_of_seconds 3 = Inr \<lparr>td_days = 0, td_seconds = 3, td_microseconds = 0\<rparr>"
  by (simp add: timedelta_of_seconds_def round_half_even_def Let_def)

lemma str_timedelta_one_and_a_half:
  "str_timedelta \<lparr>td_days = 0, td_seconds = 1, td_microseconds = 500000\<rparr> = ''0:00:01.500000''"
  by (simp add: str_timedelta_def Let_def str_int_def fmt_d_def rjust_def str_nat.simps
        digit_char_table)

lemma str_timedelta_three:
  "str_timedelta \<lparr>td_days = 0, td_seconds = 3, td_microseconds = 0\<rparr> = ''0:00:03''"
  by (simp add: str_timedelta_def Let_def str_int_def fmt_d_def rjust_def str_nat.simps
        digit_char_table)

lemma clip_time_examples:
  "clip_time ''0:00:01.500000'' = ''0:00:01,500''" "clip_time ''0:00:03'' = ''000000:00''"
  by code_simp+

lemma srt_time_one_and_a_half: "srt_time (3 / 2) = Inr ''0:00:01,500''"
  by (simp add: srt_time_def timedelta_one_and_a_half str_timedelta_one_and_a_half
        clip_time_examples)

lemma srt_time_three: "srt_time 3 = Inr ''000000:00''"
  by (simp add: srt_time_def timedelta_three str_timedelta_three clip_time_examples)

lemma py_strip_hi: "py_strip '' Hi '' = ''Hi''"
  by code_simp

lemma read_idle: "read_cancelled None idle = (False, idle\<lparr>flag_reads := Suc 0\<rparr>)"
  by (simp add: read_cancelled_def idle_def)

text \<open>
  Claim C1 (start and end in the form \<open>HH:MM:SS,mmm\<close>, text stripped). The code breaks it
  on the times: \<open>str(timedelta)\<close> has a one-digit hour and no fraction when the microseconds
  are zero, and \<open>rjust(12, "0")\<close> pads only strings shorter than 12. For the segment from
  1.5 to 3.0 seconds with text \<open>" Hi "\<close>, the start is \<open>"0:00:01,500"\<close> and the end is
  \<open>"000000:00"\<close>; the text is \<open>"Hi"\<close>.
\<close>

theorem process_segments_malformed_times:
  "fst (process_segments None translate
          [\<lparr>raw_start = 3 / 2, raw_end = 3, raw_text = '' Hi ''\<rparr>] idle)
   = Inr [\<lparr>seg_start = ''0:00:01,500'', seg_end = ''000000:00'', seg_text = ''Hi''\<rparr>]"
  by (simp add: process_segments_def read_idle srt_time_one_and_a_half srt_time_three
        py_strip_hi Let_def)

text \<open>
  Claim C9 (on the empty list every numeric field is zero, the reading-speed fields of a
  non-empty input included). The code breaks it on the fields: the result for the empty
  list has the keys \<open>avg_speed\<close>, \<open>total_chars\<close>, \<open>total_words\<close> and \<open>total_duration\<close>, all
  zero, and lacks \<open>avg_speed_cps\<close>, \<open>avg_speed_wpm\<close> and \<open>total_speaking_duration\<close>, which
  the result for every non-empty list has.
\<close>

theorem reading_speed_empty_keys:
  "calculate_reading_speed py_float [] total_duration
     = [(''avg_speed'', 0), (''total_chars'', 0), (''total_words'', 0), (''total_duration'', 0)] \<and>
   map_of (calculate_reading_speed py_float [] total_duration) ''avg_speed_cps'' = None \<and>
   map_of (calculate_reading_speed py_float [] total_duration) ''avg_speed_wpm'' = None \<and>
   map_of (calculate_reading_speed py_float [] total_duration) ''total_speaking_duration'' = None \<and>
   map_of (calculate_reading_speed py_float (segment # segments) total_duration) ''avg_speed_cps''
     \<noteq> None \<and>
   map_of (calculate_reading_speed py_float (segment # segments) total_duration) ''avg_speed_wpm''
     \<noteq> None \<and>
   map_of (calculate_reading_speed py_float (segment # segments) total_duration)
     ''total_speaking_duration'' \<noteq> None"
  by (simp add: calculate_reading_speed_def Let_def case_prod_beta)

lemma cancelled_emit [simp]: "cancelled (emit e w) = cancelled w"
  by (simp add: emit_def)

lemma events_emit [simp]: "events (emit e w) = events w @ [e]"
  by (simp add: emit_def)

lemma read_cancelled_flag: "read_cancelled k w = (c, w') \<Longrightarrow> cancelled w' = c"
  by (auto simp: read_cancelled_def Let_def)

lemma store_batch_frame:
  "length (store_batch tb segs p) = length segs"
  "n < length segs \<Longrightarrow> seg_start (store_batch tb segs p ! n) = seg_start (segs ! n)"
  "n < length segs \<Longrightarrow> seg_end (store_batch tb segs p ! n) = seg_end (segs ! n)"
  by (cases "snd p < length segs";
      simp add: store_batch_def nth_list_update case_prod_beta)+

lemma foldl_store_batch_frame:
  "length (foldl (store_batch tb) segs ps) = length segs \<and>
   (\<forall>n < length segs.
      seg_start (foldl (store_batch tb) segs ps ! n) = seg_start (segs ! n) \<and>
      seg_end (foldl (store_batch tb) segs ps ! n) = seg_end (segs ! n))"
proof (induction ps arbitrary: segs)
  case Nil
  then show ?case by simp
next
  case (Cons p ps)
  show ?case
    using Cons.IH [of "store_batch tb segs p"] by (simp add: store_batch_frame)
qed

lemma translate_loop_frame:
  "translate_loop env k target texts i segs w = (res, w') \<Longrightarrow> \<not> cancelled w' \<Longrightarrow>
   length res = length segs \<and>
   (\<forall>n < length segs. seg_start (res ! n) = seg_start (segs ! n) \<and>
                       seg_end (res ! n) = seg_end (segs ! n))"
proof (induction env k target texts i segs w arbitrary: res w' rule: translate_loop.induct)
  case (1 env k target texts i segs w)
  show ?case
  proof (cases "length texts \<le> i")
    case True
    with "1.prems" show ?thesis
      by (simp add: translate_loop.simps [of env k target texts i segs w])
  next
    case False
    obtain c w1 where r: "read_cancelled k w = (c, w1)" by force
    show ?thesis
    proof (cases c)
      case True
      with "1.prems" False r read_cancelled_flag [OF r] show ?thesis
        by (simp add: translate_loop.simps [of env k target texts i segs w])
    next
      case notc: False
      then have c: "c = False" by simp
      let ?bs = "batch_size_of (length texts)"
      let ?tb = "translate_batch (\<lambda>j. env_nets env (i + j)) (env_as_completed env)
                   (take ?bs (drop i texts)) target"
      let ?segs = "foldl (store_batch ?tb) segs (enumerate 0 [i ..< min (i + ?bs) (length texts)])"
      let ?w2 = "emit (Progress (70 + i * 25 div length texts)
                       (''Translating segments '' @ str_nat (i + 1) @ ''-''
                        @ str_nat (i + length (take ?bs (drop i texts))) @ ''/''
                        @ str_nat (length texts))) w1"
      have step: "translate_loop env k target texts i segs w
                  = translate_loop env k target texts (i + ?bs) ?segs ?w2"
        using False r c
        by (simp add: translate_loop.simps [of env k target texts i segs w] Let_def)
      have rec: "translate_loop env k target texts (i + ?bs) ?segs ?w2 = (res, w')"
        using "1.prems"(1) step by simp
      have ih: "length res = length ?segs \<and>
            (\<forall>n < length ?segs. seg_start (res ! n) = seg_start (?segs ! n) \<and>
                                 seg_end (res ! n) = seg_end (?segs ! n))"
        by (rule "1.IH" [OF refl refl False r [symmetric] c refl refl refl refl refl rec "1.prems"(2)])
      have frame: "length ?segs = length segs \<and>
            (\<forall>n < length segs. seg_start (?segs ! n) = seg_start (segs ! n) \<and>
                                seg_end (?segs ! n) = seg_end (segs ! n))"
        by (rule foldl_store_batch_frame)
      show ?thesis
      proof (intro conjI allI impI)
        show "length res = length segs" using ih frame by simp
      next
        fix n assume n: "n < length segs"
        then have "n < length ?segs" using frame by simp
        then show "seg_start (res ! n) = seg_start (segs ! n)"
          using ih frame n by metis
      next
        fix n assume n: "n < length segs"
        then have "n < length ?segs" using frame by simp
        then show "seg_end (res ! n) = seg_end (segs ! n)"
          using ih frame n by metis
      qed
    qed
  qed
qed

lemma translate_segments_keeps_times:
  assumes "translate_segments env k target segments w = (res, w')" and "\<not> cancelled w'"
  shows "length res = length segments \<and>
         (\<forall>n < length segments. seg_start (res ! n) = seg_start (segments ! n) \<and>
                                 seg_end (res ! n) = seg_end (segments ! n))"
proof -
  have "length res = length (map untranslated segments) \<and>
        (\<forall>n < length (map untranslated segments).
           seg_start (res ! n) = seg_start (map untranslated segments ! n) \<and>
           seg_end (res ! n) = seg_end (map untranslated segments ! n))"
    using assms by (intro translate_loop_frame) (auto simp: translate_segments_def Let_def)
  then show ?thesis by (simp add: untranslated_def)
qed

lemma orderly_idle: "orderly idle"
  by (simp add: orderly_def idle_def)

lemma orderly_emit: "orderly w \<Longrightarrow> \<not> is_completion e \<Longrightarrow> orderly (emit e w)"
  by (auto simp: orderly_def)

lemma orderly_progress: "orderly w \<Longrightarrow> p \<noteq> 100 \<Longrightarrow> orderly (emit (Progress p m) w)"
  by (rule orderly_emit) (simp_all add: is_completion_def)

lemma orderly_report_error: "orderly w \<Longrightarrow> orderly (report_error e w)"
  unfolding report_error_def by (rule orderly_emit) (simp_all add: is_completion_def)

lemma orderly_read: "orderly w \<Longrightarrow> read_cancelled k w = (c, w') \<Longrightarrow> orderly w'"
  by (auto simp: read_cancelled_def Let_def cancel_def orderly_def is_completion_def emit_def
           split: if_splits)

lemma orderly_select: "orderly w \<Longrightarrow> select_model_size gpu w = (ms, w') \<Longrightarrow> orderly w'"
  by (auto simp: select_model_size_def Let_def orderly_progress split: option.splits)

lemma scaled_bound: "0 < t \<Longrightarrow> a \<le> t \<Longrightarrow> a * c div t \<le> (c::nat)"
proof -
  assume t: "0 < t" and a: "a \<le> t"
  have "a * c div t \<le> t * c div t" using a by (intro div_le_mono) simp
  also have "t * c div t = c" using t by simp
  finally show ?thesis .
qed

lemma orderly_process_loop:
  "orderly w \<Longrightarrow> idx + length raws = tot \<Longrightarrow>
   process_loop k tr tot idx raws segs w = (r, w') \<Longrightarrow> orderly w'"
proof (induction raws arbitrary: idx segs w)
  case Nil
  then show ?case by simp
next
  case (Cons raw raws)
  obtain c w1 where rd: "read_cancelled k w = (c, w1)" by force
  have o1: "orderly w1" using Cons.prems(1) rd by (rule orderly_read)
  show ?case
  proof (cases c)
    case True
    with Cons.prems(3) rd o1 show ?thesis by simp
  next
    case False
    show ?thesis
    proof (cases "srt_time (raw_start raw)")
      case (Inl e)
      with Cons.prems(3) rd False o1 show ?thesis by simp
    next
      case start: (Inr start_time)
      show ?thesis
      proof (cases "srt_time (raw_end raw)")
        case (Inl e)
        with Cons.prems(3) rd False start o1 show ?thesis by simp
      next
        case stop: (Inr end_time)
        let ?p = "65 + (idx + 1) * 30 div tot"
        let ?m = "''Processing segment '' @ str_nat (idx + 1) @ ''/'' @ str_nat tot"
        let ?w2 = "if \<not> tr then emit (Progress ?p ?m) w1 else w1"
        have "(idx + 1) * 30 div tot \<le> 30"
          using Cons.prems(2) by (intro scaled_bound) auto
        then have "?p \<noteq> 100" by simp
        then have o2: "orderly ?w2" using o1 by (simp add: orderly_progress)
        have len: "(idx + 1) + length raws = tot" using Cons.prems(2) by simp
        have "process_loop k tr tot (idx + 1) raws
                (segs @ [\<lparr>seg_start = start_time, seg_end = end_time,
                          seg_text = py_strip (raw_text raw)\<rparr>]) ?w2 = (r, w')"
          using Cons.prems(3) rd False start stop by (simp add: Let_def)
        with o2 len show ?thesis by (rule Cons.IH)
      qed
    qed
  qed
qed

lemma orderly_translate_loop:
  "orderly w \<Longrightarrow> translate_loop env k target texts i segs w = (res, w') \<Longrightarrow> orderly w'"
proof (induction env k target texts i segs w arbitrary: res w' rule: translate_loop.induct)
  case (1 env k target texts i segs w)
  show ?case
  proof (cases "length texts \<le> i")
    case True
    with "1.prems" show ?thesis
      by (auto simp: translate_loop.simps [of env k target texts i segs w] orderly_progress)
  next
    case False
    obtain c w1 where r: "read_cancelled k w = (c, w1)" by force
    have o1: "orderly w1" using "1.prems"(1) r by (rule orderly_read)
    show ?thesis
    proof (cases c)
      case True
      with "1.prems" False r o1 show ?thesis
        by (simp add: translate_loop.simps [of env k target texts i segs w])
    next
      case notc: False
      then have c: "c = False" by simp
      let ?bs = "batch_size_of (length texts)"
      let ?tb = "translate_batch (\<lambda>j. env_nets env (i + j)) (env_as_completed env)
                   (take ?bs (drop i texts)) target"
      let ?segs = "foldl (store_batch ?tb) segs (enumerate 0 [i ..< min (i + ?bs) (length texts)])"
      let ?w2 = "emit (Progress (70 + i * 25 div length texts)
                       (''Translating segments '' @ str_nat (i + 1) @ ''-''
                        @ str_nat (i + length (take ?bs (drop i texts))) @ ''/''
                        @ str_nat (length texts))) w1"
      have "i * 25 div length texts \<le> 25"
        using False by (intro scaled_bound) auto
      then have o2: "orderly ?w2" using o1 by (intro orderly_progress) auto
      have step: "translate_loop env k target texts i segs w
                  = translate_loop env k target texts (i + ?bs) ?segs ?w2"
        using False r c
        by (simp add: translate_loop.simps [of env k target texts i segs w] Let_def)
      have rec: "translate_loop env k target texts (i + ?bs) ?segs ?w2 = (res, w')"
        using "1.prems"(2) step by simp
      show ?thesis
        by (rule "1.IH" [OF refl refl False r [symmetric] c refl refl refl refl refl o2 rec])
    qed
  qed
qed

lemma orderly_translate_segments:
  "orderly w \<Longrightarrow> translate_segments env k target segments w = (res, w') \<Longrightarrow> orderly w'"
proof -
  assume o: "orderly w" and t: "translate_segments env k target segments w = (res, w')"
  have "orderly (emit (Progress 70 ''Starting translation...'') w)"
    using o by (intro orderly_progress) auto
  moreover have "translate_loop env k target (map seg_text segments) 0
                   (map untranslated segments)
                   (emit (Progress 70 ''Starting translation...'') w) = (res, w')"
    using t by (simp add: translate_segments_def Let_def)
  ultimately show "orderly w'" by (rule orderly_translate_loop)
qed

lemma cancelled_finish [simp]: "cancelled (finish segments w) = cancelled w"
  by (simp add: finish_def)

lemma run_orderly_or_live:
  "orderly (run env k j idle) \<or> \<not> cancelled (run env k j idle)"
proof -
  let ?w1 = "emit (Progress 5 ''Initializing transcription model...'') idle"
  have o1: "orderly ?w1" using orderly_idle by (intro orderly_progress) auto
  obtain model_size w2 where sel: "select_model_size (env_gpu_total_memory env) ?w1 = (model_size, w2)"
    by force
  have o2: "orderly w2" using o1 sel by (rule orderly_select)
  let ?w3 = "emit (Progress 10 (''Loading '' @ model_size @ '' model...'')) w2"
  have o3: "orderly ?w3" using o2 by (intro orderly_progress) auto
  show ?thesis
  proof (cases "env_load_model env model_size")
    case (Some e)
    then have "run env k j idle = report_error e ?w3"
      by (simp add: run_def sel del: append.simps)
    then show ?thesis using o3 by (simp add: orderly_report_error)
  next
    case loaded: None
    obtain c4 w4 where r4: "read_cancelled k ?w3 = (c4, w4)" by force
    have o4: "orderly w4" using o3 r4 by (rule orderly_read)
    show ?thesis
    proof (cases c4)
      case True
      then have "run env k j idle = w4" by (simp add: run_def sel loaded r4 del: append.simps)
      then show ?thesis using o4 by simp
    next
      case n4: False
      let ?w5 = "emit (Progress 30 ''Model loaded. Starting transcription...'') w4"
      let ?language = "if job_source_language j \<noteq> ''auto'' then Some (job_source_language j) else None"
      let ?w6 = "if job_source_language j \<noteq> ''auto''
                 then emit (Progress 35 (''Transcribing with language: '' @ job_source_language j)) ?w5
                 else emit (Progress 35 ''Detecting language automatically...'') ?w5"
      have o6: "orderly ?w6" using o4 by (auto intro!: orderly_progress)
      show ?thesis
      proof (cases "env_transcribe env model_size (job_audio_path j) ?language")
        case (Inl e)
        then have "run env k j idle = report_error e ?w6"
          by (simp add: run_def sel loaded r4 n4 Let_def del: append.simps)
        then show ?thesis using o6 by (simp add: orderly_report_error)
      next
        case transcribed: (Inr result)
        obtain c7 w7 where r7: "read_cancelled k ?w6 = (c7, w7)" by force
        have o7: "orderly w7" using o6 r7 by (rule orderly_read)
        show ?thesis
        proof (cases c7)
          case True
          then have "run env k j idle = w7"
            using transcribed by (simp add: run_def sel loaded r4 n4 r7 Let_def del: append.simps)
          then show ?thesis using o7 by simp
        next
          case n7: False
          let ?w8 = "emit (Progress 60 ''Transcription complete. Processing results...'') w7"
          let ?w9 = "emit (Progress 65 (''Detected language: '' @
                       (case result_language result of Some l \<Rightarrow> l | None \<Rightarrow> ''unknown''))) ?w8"
          have o9: "orderly ?w9" using o7 by (auto intro!: orderly_progress)
          obtain r w10 where p: "process_segments k (job_translate j) (result_segments result) ?w9 = (r, w10)"
            by force
          have o10: "orderly w10"
            using o9 _ p [unfolded process_segments_def] by (rule orderly_process_loop) simp
          show ?thesis
          proof (cases r)
            case (Inl e)
            then have "run env k j idle = report_error e w10"
              using transcribed by (simp add: run_def sel loaded r4 n4 r7 n7 p Let_def del: append.simps)
            then show ?thesis using o10 by (simp add: orderly_report_error)
          next
            case processed: (Inr segments)
            obtain c11 w11 where r11: "read_cancelled k w10 = (c11, w11)" by force
            have o11: "orderly w11" using o10 r11 by (rule orderly_read)
            show ?thesis
            proof (cases c11)
              case True
              then have "run env k j idle = w11"
                using transcribed processed
                by (simp add: run_def sel loaded r4 n4 r7 n7 p r11 Let_def del: append.simps)
              then show ?thesis using o11 by simp
            next
              case n11: False
              have live11: "\<not> cancelled w11" using read_cancelled_flag [OF r11] n11 by simp
              have plain: "run env k j idle = finish (map untranslated segments) w11"
                if "\<not> (job_translate j \<and> job_target_language j \<noteq> None
                         \<and> job_target_language j \<noteq> Some [])"
                using that sel loaded r4 n4 transcribed r7 n7 p processed r11 n11
                by (auto simp add: run_def Let_def)
              show ?thesis
              proof (cases "job_translate j \<and> job_target_language j \<noteq> None
                              \<and> job_target_language j \<noteq> Some []")
                case False
                then show ?thesis using plain live11 by simp
              next
                case translating: True
                then obtain target where tr: "job_translate j"
                  and tl: "job_target_language j = Some target" and tn: "target \<noteq> []"
                  by auto
                obtain translated w12 where
                  t: "translate_segments env k target segments w11 = (translated, w12)"
                  by force
                have o12: "orderly w12" using o11 t by (rule orderly_translate_segments)
                obtain c13 w13 where r13: "read_cancelled k w12 = (c13, w13)" by force
                have o13: "orderly w13" using o12 r13 by (rule orderly_read)
                show ?thesis
                proof (cases c13)
                  case True
                  have "run env k j idle = w13"
                    using sel loaded r4 n4 transcribed r7 n7 tr tl tn p processed r11 n11 t r13 True
                    by (simp add: run_def Let_def)
                  then show ?thesis using o13 by simp
                next
                  case n13: False
                  have "\<not> cancelled w13" using read_cancelled_flag [OF r13] n13 by simp
                  moreover have "run env k j idle = finish translated w13"
                    using sel loaded r4 n4 transcribed r7 n7 tr tl tn p processed r11 n11 t r13 n13
                    by (simp add: run_def Let_def)
                  ultimately show ?thesis by simp
                qed
              qed
            qed
          qed
        qed
      qed
    qed
  qed
qed

text \<open>
  Claim C3. In every run in which a check of the worker sees the cancellation flag set
  (the flag is set before the last check, so before the final phase), the trace has no
  \<open>transcription_complete\<close> signal and no progress of 100, and it has the message
  \<open>(0, "Cancelling operation...")\<close> of \<open>cancel()\<close>.
\<close>

theorem run_cancelled_no_completion:
  assumes "cancelled (run env cancel_at j idle)"
  shows "(\<forall>segments. TranscriptionComplete segments \<notin> set (events (run env cancel_at j idle))) \<and>
         (\<forall>message. Progress 100 message \<notin> set (events (run env cancel_at j idle))) \<and>
         Progress 0 ''Cancelling operation...'' \<in> set (events (run env cancel_at j idle))"
proof -
  have o: "orderly (run env cancel_at j idle)"
    using run_orderly_or_live [of env cancel_at j] assms by blast
  have nc: "\<not> is_completion e" if "e \<in> set (events (run env cancel_at j idle))" for e
    using o that by (simp add: orderly_def)
  have "TranscriptionComplete segments \<notin> set (events (run env cancel_at j idle))" for segments
    using nc [of "TranscriptionComplete segments"] by (auto simp: is_completion_def)
  moreover have "Progress 100 message \<notin> set (events (run env cancel_at j idle))" for message
    using nc [of "Progress 100 message"] by (auto simp: is_completion_def)
  moreover have "Progress 0 ''Cancelling operation...'' \<in> set (events (run env cancel_at j idle))"
    using o assms by (simp add: orderly_def)
  ultimately show ?thesis by blast
qed

lemma run_cancel_after_60:
  "run quiet_env (Some 2) plain_job idle =
     \<lparr>cancelled = True, flag_reads = 3,
      events = [Progress 5 ''Initializing transcription model...'',
                Progress 15 ''Using base model (CPU mode - slower)'',
                Progress 10 ''Loading base model...'',
                Progress 30 ''Model loaded. Starting transcription...'',
                Progress 35 ''Detecting language automatically...'',
                Progress 60 ''Transcription complete. Processing results...'',
                Progress 65 ''Detected language: en'',
                Progress 0 ''Cancelling operation...'']\<rparr>"
  by code_simp

theorem run_cancelled_no_completion_witness:
  "cancelled (run quiet_env (Some 2) plain_job idle) \<and>
   Progress 60 ''Transcription complete. Processing results...''
     \<in> set (events (run quiet_env (Some 2) plain_job idle)) \<and>
   (\<forall>segments. TranscriptionComplete segments
      \<notin> set (events (run quiet_env (Some 2) plain_job idle))) \<and>
   (\<forall>message. Progress 100 message \<notin> set (events (run quiet_env (Some 2) plain_job idle))) \<and>
   Progress 0 ''Cancelling operation...'' \<in> set (events (run quiet_env (Some 2) plain_job idle))"
proof -
  have c: "cancelled (run quiet_env (Some 2) plain_job idle)"
    by (simp add: run_cancel_after_60)
  have "Progress 60 ''Transcription complete. Processing results...''
          \<in> set (events (run quiet_env (Some 2) plain_job idle))"
    by (simp add: run_cancel_after_60)
  with c run_cancelled_no_completion [OF c] show ?thesis by blast
qed

text \<open>
  When a check of the translation phase sees the flag set, the phase returns the empty
  list.
\<close>

lemma read_cancelled_keeps_flag: "read_cancelled k w = (c, w') \<Longrightarrow> cancelled w \<Longrightarrow> c"
  by (auto simp: read_cancelled_def Let_def cancel_def split: if_splits)

lemma translate_loop_cancelled:
  "translate_loop env k target texts i segs w = (res, w') \<Longrightarrow> cancelled w' \<Longrightarrow>
   res = [] \<or> (cancelled w \<and> length texts \<le> i \<and> res = segs)"
proof (induction env k target texts i segs w arbitrary: res w' rule: translate_loop.induct)
  case (1 env k target texts i segs w)
  show ?case
  proof (cases "length texts \<le> i")
    case True
    with "1.prems" show ?thesis
      by (auto simp: translate_loop.simps [of env k target texts i segs w])
  next
    case False
    obtain c w1 where r: "read_cancelled k w = (c, w1)" by force
    show ?thesis
    proof (cases c)
      case True
      with "1.prems" False r show ?thesis
        by (simp add: translate_loop.simps [of env k target texts i segs w])
    next
      case notc: False
      then have c: "c = False" by simp
      have live: "\<not> cancelled w1" using read_cancelled_flag [OF r] notc by simp
      let ?bs = "batch_size_of (length texts)"
      let ?tb = "translate_batch (\<lambda>j. env_nets env (i + j)) (env_as_completed env)
                   (take ?bs (drop i texts)) target"
      let ?segs = "foldl (store_batch ?tb) segs (enumerate 0 [i ..< min (i + ?bs) (length texts)])"
      let ?w2 = "emit (Progress (70 + i * 25 div length texts)
                       (''Translating segments '' @ str_nat (i + 1) @ ''-''
                        @ str_nat (i + length (take ?bs (drop i texts))) @ ''/''
                        @ str_nat (length texts))) w1"
      have step: "translate_loop env k target texts i segs w
                  = translate_loop env k target texts (i + ?bs) ?segs ?w2"
        using False r c
        by (simp add: translate_loop.simps [of env k target texts i segs w] Let_def)
      have rec: "translate_loop env k target texts (i + ?bs) ?segs ?w2 = (res, w')"
        using "1.prems"(1) step by simp
      have "res = [] \<or> (cancelled ?w2 \<and> length texts \<le> i + ?bs \<and> res = ?segs)"
        by (rule "1.IH" [OF refl refl False r [symmetric] c refl refl refl refl refl rec "1.prems"(2)])
      then show ?thesis using live by simp
    qed
  qed
qed

lemma translate_segments_cancelled:
  assumes "cancelled (snd (translate_segments env cancel_at target segments w))"
  shows "fst (translate_segments env cancel_at target segments w) = []"
proof -
  obtain res w' where t: "translate_segments env cancel_at target segments w = (res, w')"
    by force
  then have loop: "translate_loop env cancel_at target (map seg_text segments) 0
                (map untranslated segments) (emit (Progress 70 ''Starting translation...'') w)
              = (res, w')"
    by (simp add: translate_segments_def Let_def)
  have "cancelled w'" using assms t by simp
  from translate_loop_cancelled [OF loop this] have "res = []" by auto
  then show ?thesis using t by simp
qed

text \<open>
  Claim C10, amended. When no check of the translation phase sees the cancellation flag
  set, \<open>_translate_segments\<close> returns a list with as many segments as its input, and
  segment \<open>i\<close> has the start and the end of input segment \<open>i\<close>: only the text may change.
\<close>

theorem translate_segments_frame:
  assumes "\<not> cancelled (snd (translate_segments env cancel_at target segments w))"
  shows "length (fst (translate_segments env cancel_at target segments w)) = length segments \<and>
         (\<forall>i < length segments.
            seg_start (fst (translate_segments env cancel_at target segments w) ! i)
              = seg_start (segments ! i) \<and>
            seg_end (fst (translate_segments env cancel_at target segments w) ! i)
              = seg_end (segments ! i))"
  using assms
    translate_segments_keeps_times [of env cancel_at target segments w
      "fst (translate_segments env cancel_at target segments w)"
      "snd (translate_segments env cancel_at target segments w)"]
  by simp

lemma translate_one_segment:
  "translate_segments quiet_env None ''es''
     [\<lparr>seg_start = ''00:00:01,000'', seg_end = ''00:00:03,000'', seg_text = ''Hi''\<rparr>] idle
   = ([\<lparr>seg_start = ''00:00:01,000'', seg_end = ''00:00:03,000'', seg_text = JStr ''Hi''\<rparr>],
      \<lparr>cancelled = False, flag_reads = 1,
       events = [Progress 70 ''Starting translation...'',
                 Progress 70 ''Translating segments 1-1/1'',
                 Progress 95 ''Translation completed.'']\<rparr>)"
  by code_simp

theorem translate_segments_frame_witness:
  "\<not> cancelled (snd (translate_segments quiet_env None ''es''
       [\<lparr>seg_start = ''00:00:01,000'', seg_end = ''00:00:03,000'', seg_text = ''Hi''\<rparr>] idle)) \<and>
   length (fst (translate_segments quiet_env None ''es''
       [\<lparr>seg_start = ''00:00:01,000'', seg_end = ''00:00:03,000'', seg_text = ''Hi''\<rparr>] idle)) = 1 \<and>
   seg_start (fst (translate_segments quiet_env None ''es''
       [\<lparr>seg_start = ''00:00:01,000'', seg_end = ''00:00:03,000'', seg_text = ''Hi''\<rparr>] idle) ! 0)
     = ''00:00:01,000''"
proof -
  have live: "\<not> cancelled (snd (translate_segments quiet_env None ''es''
       [\<lparr>seg_start = ''00:00:01,000'', seg_end = ''00:00:03,000'', seg_text = ''Hi''\<rparr>] idle))"
    by (simp add: translate_one_segment)
  from translate_segments_frame [OF live] live show ?thesis by simp
qed

text \<open>
  Claim C10, as stated, fails: when the flag is set at the first check of the translation
  phase, the result for a list of one segment is the empty list.
\<close>

theorem translate_segments_cancelled_returns_nothing:
  "fst (translate_segments quiet_env (Some 0) ''es''
     [\<lparr>seg_start = ''00:00:01,000'', seg_end = ''00:00:03,000'', seg_text = ''Hi''\<rparr>] idle) = [] \<and>
   length (fst (translate_segments quiet_env (Some 0) ''es''
     [\<lparr>seg_start = ''00:00:01,000'', seg_end = ''00:00:03,000'', seg_text = ''Hi''\<rparr>] idle))
   \<noteq> length [\<lparr>seg_start = ''00:00:01,000'', seg_end = ''00:00:03,000'', seg_text = ''Hi''\<rparr>]"
  by code_simp

end
